theory Spec2Isabelle
  imports Complex_Main "HOL-Library.AList" "HOL-Library.Multiset" "HOL-Library.Sublist"
begin

section \<open>Ranked retrieval (backend/src/rag/retriever.py)\<close>

text \<open>
  The module ranks the hits of a vector index for a query: a semantic strategy, a keyword
  strategy, a hybrid strategy that fuses both, and a service with a book filter and a
  reranking pass. The model follows the Python source function by function:
  \<^item> a dictionary with a fixed set of keys is a record; a key that may be absent is an
    \<open>option\<close> field (\<open>None\<close>: absent). The key \<open>id\<close> is the field \<open>cid\<close>;
  \<^item> a float is a real number, \<open>top_k\<close> an integer;
  \<^item> a string is a list of 8-bit characters, with ASCII case folding and ASCII whitespace;
  \<^item> the embedding generator and the vector store, which the module imports, are
    parameters; a call of either may raise, and the exception (\<open>Inl\<close>) propagates through
    every function that awaits it, since the module catches nothing and raises nothing
    itself;
  \<^item> an append loop is a \<open>foldl\<close> (or a \<open>map\<close> where the body does not read the list
    built so far); \<open>list.sort\<close> is the stable \<open>sort_key\<close>.
\<close>

subsection \<open>Strings: \<open>str.lower\<close> and \<open>str.split\<close>\<close>

definition lower_char :: "char \<Rightarrow> char" where
  "lower_char c =
     (let n = (of_char c :: nat) in if 65 \<le> n \<and> n \<le> 90 then char_of (n + 32) else c)"

definition lower :: "string \<Rightarrow> string" where
  "lower s = map lower_char s"

definition is_space :: "char \<Rightarrow> bool" where
  "is_space c = (let n = (of_char c :: nat) in (9 \<le> n \<and> n \<le> 13) \<or> (28 \<le> n \<and> n \<le> 32))"

text \<open>\<open>split_aux w s\<close>: \<open>w\<close> is the word read so far, \<open>s\<close> the rest of the string. Runs of
  whitespace separate words and produce no empty word, as \<open>str.split()\<close> without argument.\<close>

fun split_aux :: "string \<Rightarrow> string \<Rightarrow> string list" where
  "split_aux w [] = (if w = [] then [] else [w])"
| "split_aux w (c # cs) =
     (if is_space c then (if w = [] then split_aux [] cs else w # split_aux [] cs)
      else split_aux (w @ [c]) cs)"

definition str_split :: "string \<Rightarrow> string list" where
  "str_split s = split_aux [] s"

subsection \<open>Data\<close>

text \<open>A hit of the vector index: the dictionary with keys id, content, metadata, distance.\<close>

record hit =
  hit_id :: string
  hit_content :: string
  hit_metadata :: "(string \<times> string) list"
  distance :: real

text \<open>A result dictionary. The keys id, content, metadata and rank are set by the semantic
  and keyword retrievers; every score key is optional (\<open>None\<close>: the key is absent).\<close>

record candidate =
  cid :: string
  content :: string
  metadata :: "(string \<times> string) list"
  rank :: nat
  similarity_score :: "real option"
  bm25_score :: "real option"
  combined_score :: "real option"
  semantic_score :: "real option"
  keyword_score :: "real option"
  reranked_score :: "real option"

text \<open>The two collaborators, which are not part of the module: the embedding generator and
  the vector store. Either call may raise; an exception is \<open>Inl\<close>.\<close>

record 'e env =
  generate_embedding :: "string \<Rightarrow> 'e + real list"
  search :: "string \<Rightarrow> int \<Rightarrow> 'e + hit list"

text \<open>\<open>d.get(key, default)\<close> on an optional key.\<close>

definition dict_get :: "'a option \<Rightarrow> 'a \<Rightarrow> 'a" where
  "dict_get v d = (case v of Some x \<Rightarrow> x | None \<Rightarrow> d)"

text \<open>\<open>xs[:k]\<close>: a negative \<open>k\<close> counts from the end.\<close>

definition slice_upto :: "int \<Rightarrow> 'a list \<Rightarrow> 'a list" where
  "slice_upto k xs =
     (if 0 \<le> k then take (nat k) xs else take (length xs - nat (- k)) xs)"

text \<open>\<open>xs.sort(key=..., reverse=True)\<close>: a stable sort in descending order of the key.\<close>

definition sort_desc :: "('a \<Rightarrow> real) \<Rightarrow> 'a list \<Rightarrow> 'a list" where
  "sort_desc key xs = sort_key (\<lambda>x. - key x) xs"

subsection \<open>SemanticRetriever\<close>

text \<open>The dictionary appended for a hit when \<open>len(formatted_results) + 1\<close> is \<open>r\<close>.\<close>

definition semantic_result :: "nat \<Rightarrow> hit \<Rightarrow> candidate" where
  "semantic_result r result =
     \<lparr>cid = hit_id result, content = hit_content result, metadata = hit_metadata result,
      rank = r,
      similarity_score = Some (1 - distance result), bm25_score = None,
      combined_score = None, semantic_score = None, keyword_score = None,
      reranked_score = None\<rparr>"

definition semantic_format :: "candidate list \<Rightarrow> hit \<Rightarrow> candidate list" where
  "semantic_format formatted_results result =
     formatted_results @ [semantic_result (length formatted_results + 1) result]"

definition semantic_retrieve :: "'e env \<Rightarrow> string \<Rightarrow> int \<Rightarrow> 'e + candidate list" where
  "semantic_retrieve env query top_k =
     (case generate_embedding env query of
        Inl e \<Rightarrow> Inl e
      | Inr query_embedding \<Rightarrow>
          if query_embedding = [] then Inr []
          else (case search env query top_k of
                  Inl e \<Rightarrow> Inl e
                | Inr results \<Rightarrow> Inr (foldl semantic_format [] (sort_key distance results))))"

subsection \<open>BM25Retriever\<close>

definition bm25_result :: "string set \<Rightarrow> nat \<Rightarrow> hit \<Rightarrow> candidate" where
  "bm25_result query_words r result =
     (let content_words = set (str_split (lower (hit_content result)));
          overlap = card (query_words \<inter> content_words);
          score = (if card query_words > 0 then real overlap / real (card query_words) else 0)
      in \<lparr>cid = hit_id result, content = hit_content result, metadata = hit_metadata result,
          rank = r,
          similarity_score = None, bm25_score = Some score,
          combined_score = None, semantic_score = None, keyword_score = None,
          reranked_score = None\<rparr>)"

definition bm25_format :: "string set \<Rightarrow> candidate list \<Rightarrow> hit \<Rightarrow> candidate list" where
  "bm25_format query_words formatted_results result =
     formatted_results @ [bm25_result query_words (length formatted_results + 1) result]"

definition bm25_retrieve :: "'e env \<Rightarrow> string \<Rightarrow> int \<Rightarrow> 'e + candidate list" where
  "bm25_retrieve env query top_k =
     (case search env query top_k of
        Inl e \<Rightarrow> Inl e
      | Inr results \<Rightarrow>
          Inr (foldl (bm25_format (set (str_split (lower query)))) [] results))"

subsection \<open>HybridRetriever\<close>

text \<open>A value of the dictionary \<open>result_scores\<close>. The dictionary itself is an association
  list in insertion order: \<open>AList.update\<close> appends a new key at the end and
  \<open>AList.map_entry\<close> changes the value of a present key in place.\<close>

record score_entry =
  document :: candidate
  entry_semantic_score :: real
  entry_keyword_score :: real

definition add_semantic ::
  "(string \<times> score_entry) list \<Rightarrow> candidate \<Rightarrow> (string \<times> score_entry) list" where
  "add_semantic result_scores result =
     (let doc_id = cid result;
          result_scores' =
            (if map_of result_scores doc_id = None
             then AList.update doc_id
                    \<lparr>document = result, entry_semantic_score = 0, entry_keyword_score = 0\<rparr>
                    result_scores
             else result_scores)
      in AList.map_entry doc_id
           (\<lambda>e. e\<lparr>entry_semantic_score := dict_get (similarity_score result) 0\<rparr>)
           result_scores')"

definition add_keyword ::
  "(string \<times> score_entry) list \<Rightarrow> candidate \<Rightarrow> (string \<times> score_entry) list" where
  "add_keyword result_scores result =
     (let doc_id = cid result;
          result_scores' =
            (if map_of result_scores doc_id = None
             then AList.update doc_id
                    \<lparr>document = result, entry_semantic_score = 0, entry_keyword_score = 0\<rparr>
                    result_scores
             else result_scores)
      in AList.map_entry doc_id
           (\<lambda>e. e\<lparr>entry_keyword_score := dict_get (bm25_score result) 0\<rparr>)
           result_scores')"

definition combine :: "real \<Rightarrow> real \<Rightarrow> string \<times> score_entry \<Rightarrow> candidate" where
  "combine semantic_weight keyword_weight item =
     (let scores = snd item;
          combined = semantic_weight * entry_semantic_score scores
                     + keyword_weight * entry_keyword_score scores
      in (document scores)
           \<lparr>combined_score := Some combined,
            semantic_score := Some (entry_semantic_score scores),
            keyword_score := Some (entry_keyword_score scores)\<rparr>)"

definition result_scores_of ::
  "candidate list \<Rightarrow> candidate list \<Rightarrow> (string \<times> score_entry) list" where
  "result_scores_of semantic_results keyword_results =
     foldl add_keyword (foldl add_semantic [] semantic_results) keyword_results"

definition combined_results ::
  "real \<Rightarrow> real \<Rightarrow> candidate list \<Rightarrow> candidate list \<Rightarrow> candidate list" where
  "combined_results semantic_weight keyword_weight semantic_results keyword_results =
     sort_desc (\<lambda>x. dict_get (combined_score x) 0)
       (map (combine semantic_weight keyword_weight)
            (result_scores_of semantic_results keyword_results))"

definition hybrid_retrieve ::
  "'e env \<Rightarrow> real \<Rightarrow> real \<Rightarrow> string \<Rightarrow> int \<Rightarrow> 'e + candidate list" where
  "hybrid_retrieve env semantic_weight keyword_weight query top_k =
     (case semantic_retrieve env query (top_k * 2) of
        Inl e \<Rightarrow> Inl e
      | Inr semantic_results \<Rightarrow>
          (case bm25_retrieve env query (top_k * 2) of
             Inl e \<Rightarrow> Inl e
           | Inr keyword_results \<Rightarrow>
               Inr (slice_upto top_k
                      (combined_results semantic_weight keyword_weight
                         semantic_results keyword_results))))"

subsection \<open>RankedRetrievalService\<close>

text \<open>The service builds its hybrid retriever with the constructor's default weights.\<close>

definition default_semantic_weight :: real where
  "default_semantic_weight = 0.7"

definition default_keyword_weight :: real where
  "default_keyword_weight = 0.3"

text \<open>The list comprehension of the four operations: keep the results whose metadata maps
  \<open>book_id\<close> to the given identifier.\<close>

definition book_matches :: "string \<Rightarrow> candidate \<Rightarrow> bool" where
  "book_matches book_id result = (map_of (metadata result) ''book_id'' = Some book_id)"

text \<open>\<open>if book_id:\<close> holds for a string that is neither \<open>None\<close> nor empty.\<close>

definition filter_by_book :: "string option \<Rightarrow> candidate list \<Rightarrow> candidate list" where
  "filter_by_book book_id results =
     (case book_id of
        None \<Rightarrow> results
      | Some b \<Rightarrow> if b = [] then results else filter (book_matches b) results)"

definition retrieve_by_semantic_similarity ::
  "'e env \<Rightarrow> string \<Rightarrow> string option \<Rightarrow> int \<Rightarrow> 'e + candidate list" where
  "retrieve_by_semantic_similarity env query book_id top_k =
     (case semantic_retrieve env query top_k of
        Inl e \<Rightarrow> Inl e
      | Inr results \<Rightarrow> Inr (filter_by_book book_id results))"

definition retrieve_by_keyword_matching ::
  "'e env \<Rightarrow> string \<Rightarrow> string option \<Rightarrow> int \<Rightarrow> 'e + candidate list" where
  "retrieve_by_keyword_matching env query book_id top_k =
     (case bm25_retrieve env query top_k of
        Inl e \<Rightarrow> Inl e
      | Inr results \<Rightarrow> Inr (filter_by_book book_id results))"

definition retrieve_hybrid ::
  "'e env \<Rightarrow> string \<Rightarrow> string option \<Rightarrow> int \<Rightarrow> 'e + candidate list" where
  "retrieve_hybrid env query book_id top_k =
     (case hybrid_retrieve env default_semantic_weight default_keyword_weight query top_k of
        Inl e \<Rightarrow> Inl e
      | Inr results \<Rightarrow> Inr (filter_by_book book_id results))"

text \<open>The loop body of \<open>_rerank_results\<close>: the combined score of a result, and the copy of
  the result that carries it.\<close>

definition rerank_score :: "string set \<Rightarrow> candidate \<Rightarrow> real" where
  "rerank_score query_words result =
     (let content_words = str_split (lower (content result));
          term_overlap =
            (if query_words \<noteq> {}
             then real (card (query_words \<inter> set content_words)) / real (card query_words)
             else 0);
          length_score =
            (if length content_words < 20 \<or> length content_words > 500 then 0.5 else 1.0);
          position_score = 1.0
      in 0.5 * dict_get (combined_score result) (dict_get (semantic_score result) 0)
         + 0.3 * term_overlap + 0.1 * length_score + 0.1 * position_score)"

definition rerank_item :: "string set \<Rightarrow> candidate \<Rightarrow> candidate" where
  "rerank_item query_words result =
     result\<lparr>reranked_score := Some (rerank_score query_words result)\<rparr>"

definition rerank_results :: "string \<Rightarrow> candidate list \<Rightarrow> candidate list" where
  "rerank_results query results =
     sort_desc (\<lambda>x. dict_get (reranked_score x) 0)
       (map (rerank_item (set (str_split (lower query)))) results)"

definition retrieve_with_reranking ::
  "'e env \<Rightarrow> string \<Rightarrow> string option \<Rightarrow> int \<Rightarrow> 'e + candidate list" where
  "retrieve_with_reranking env query book_id top_k =
     (case hybrid_retrieve env default_semantic_weight default_keyword_weight query
             (top_k * 2) of
        Inl e \<Rightarrow> Inl e
      | Inr initial_results \<Rightarrow>
          Inr (slice_upto top_k (rerank_results query (filter_by_book book_id initial_results))))"

subsection \<open>The reranker on a store of dictionaries\<close>

text \<open>
  The same function with the dictionaries held in a store, to follow what it writes. A
  store is the list of the dictionaries allocated so far and a reference is an index into
  it (the references a caller holds are below the length of the store).
  \<open>result.copy()\<close> allocates a new dictionary with the keys and values of \<open>result\<close>;
  the assignment to \<open>reranked_item['reranked_score']\<close> writes into that new dictionary.
\<close>

type_synonym store = "candidate list"

definition rerank_step :: "string set \<Rightarrow> nat list \<times> store \<Rightarrow> nat \<Rightarrow> nat list \<times> store" where
  "rerank_step query_words state result =
     (let reranked_with_scores = fst state;
          s = snd state;
          combined = rerank_score query_words (s ! result);
          reranked_item = length s;
          s1 = s @ [s ! result];
          s2 = s1[reranked_item := (s1 ! reranked_item)\<lparr>reranked_score := Some combined\<rparr>]
      in (reranked_with_scores @ [reranked_item], s2))"

definition rerank_results_store :: "string \<Rightarrow> nat list \<Rightarrow> store \<Rightarrow> nat list \<times> store" where
  "rerank_results_store query results s =
     (let state = foldl (rerank_step (set (str_split (lower query)))) ([], s) results;
          s' = snd state
      in (sort_desc (\<lambda>x. dict_get (reranked_score (s' ! x)) 0) (fst state), s'))"

text \<open>The keys of a result other than \<open>reranked_score\<close>.\<close>

definition prior_fields ::
  "candidate \<Rightarrow> string \<times> string \<times> (string \<times> string) list \<times> nat
     \<times> real option \<times> real option \<times> real option \<times> real option \<times> real option" where
  "prior_fields c =
     (cid c, content c, metadata c, rank c, similarity_score c, bm25_score c,
      combined_score c, semantic_score c, keyword_score c)"

subsection \<open>The reranking formula as the specification words it\<close>

definition spec_word_set :: "string \<Rightarrow> string set" where
  "spec_word_set text = set (str_split (lower text))"

definition spec_term_overlap :: "string \<Rightarrow> string \<Rightarrow> real" where
  "spec_term_overlap query text =
     (if spec_word_set query = {} then 0
      else real (card (spec_word_set query \<inter> spec_word_set text))
           / real (card (spec_word_set query)))"

definition spec_word_count :: "string \<Rightarrow> nat" where
  "spec_word_count text = length (str_split (lower text))"

definition spec_length_score :: "string \<Rightarrow> real" where
  "spec_length_score text =
     (if 20 \<le> spec_word_count text \<and> spec_word_count text \<le> 500 then 1 else 0.5)"

definition spec_prior_composite :: "candidate \<Rightarrow> real" where
  "spec_prior_composite c =
     (case combined_score c of
        Some fused \<Rightarrow> fused
      | None \<Rightarrow> (case semantic_score c of Some s \<Rightarrow> s | None \<Rightarrow> 0))"

definition spec_reranked :: "string \<Rightarrow> candidate \<Rightarrow> real" where
  "spec_reranked query c =
     0.5 * spec_prior_composite c + 0.3 * spec_term_overlap query (content c)
     + 0.1 * spec_length_score (content c) + 0.1 * 1"

subsection \<open>Notions of the specification used to state the properties\<close>

text \<open>The score an identity has in a strategy's results: the score of its entry (of the
  last one, should the identity occur twice), and 0 when the identity or the score is
  missing.\<close>

definition score_of :: "(candidate \<Rightarrow> real option) \<Rightarrow> candidate list \<Rightarrow> string \<Rightarrow> real" where
  "score_of field results ident =
     (let entries = filter (\<lambda>r. cid r = ident) results
      in if entries = [] then 0 else dict_get (field (last entries)) 0)"

text \<open>A score that is absent or within the unit interval, and a result all of whose scores
  are.\<close>

definition unit_score :: "real option \<Rightarrow> bool" where
  "unit_score v = (case v of None \<Rightarrow> True | Some s \<Rightarrow> 0 \<le> s \<and> s \<le> 1)"

definition scores_bounded :: "candidate \<Rightarrow> bool" where
  "scores_bounded c =
     (unit_score (similarity_score c) \<and> unit_score (bm25_score c)
      \<and> unit_score (combined_score c) \<and> unit_score (semantic_score c)
      \<and> unit_score (keyword_score c) \<and> unit_score (reranked_score c))"

subsection \<open>Example index\<close>

definition village :: hit where
  "village = \<lparr>hit_id = ''1'', hit_content = ''a quiet village morning'',
              hit_metadata = [(''book_id'', ''A'')], distance = 0.4\<rparr>"

definition dragon :: hit where
  "dragon = \<lparr>hit_id = ''2'', hit_content = ''The Dragon flew over the castle'',
             hit_metadata = [(''book_id'', ''B'')], distance = 0.5\<rparr>"

text \<open>An index of two chunks that returns its best \<open>n\<close> hits, and an embedding generator
  that returns a one-dimensional vector.\<close>

definition example_env :: "unit env" where
  "example_env =
     \<lparr>generate_embedding = (\<lambda>query. Inr [1]),
      search = (\<lambda>query n. Inr (take (nat n) [village, dragon]))\<rparr>"

text \<open>The example index behind an embedding generator that returns the empty embedding.\<close>

definition no_embedding_env :: "unit env" where
  "no_embedding_env =
     \<lparr>generate_embedding = (\<lambda>query. Inr []),
      search = (\<lambda>query n. Inr (take (nat n) [village, dragon]))\<rparr>"

text \<open>An index that returns the identity of the first chunk twice.\<close>

definition village_again :: hit where
  "village_again = \<lparr>hit_id = ''1'', hit_content = ''a quiet village morning'',
                    hit_metadata = [(''book_id'', ''A'')], distance = 0.9\<rparr>"

definition duplicate_env :: "unit env" where
  "duplicate_env =
     \<lparr>generate_embedding = (\<lambda>query. Inr [1]),
      search = (\<lambda>query n. Inr (take (nat n) [village, dragon, village_again]))\<rparr>"

text \<open>A store holding the two results the semantic retriever builds for the example
  index.\<close>

definition example_store :: store where
  "example_store = [semantic_result 1 village, semantic_result 2 dragon]"

section \<open>Properties\<close>

subsection \<open>Sorting and slicing\<close>

lemma mset_sort_desc: "mset (sort_desc key xs) = mset xs"
  by (simp add: sort_desc_def)

lemma set_sort_desc: "set (sort_desc key xs) = set xs"
  by (simp add: sort_desc_def)

lemma length_sort_desc: "length (sort_desc key xs) = length xs"
  by (simp add: sort_desc_def)

lemma set_slice_upto: "set (slice_upto k xs) \<subseteq> set xs"
  by (auto simp: slice_upto_def dest: in_set_takeD)

lemma slice_upto_nonneg: "0 \<le> k \<Longrightarrow> slice_upto k xs = take (nat k) xs"
  by (simp add: slice_upto_def)

subsection \<open>The reranker\<close>

lemma rerank_item_spec:
  "rerank_item (set (str_split (lower query))) c
     = c\<lparr>reranked_score := Some (spec_reranked query c)\<rparr>"
  by (simp add: rerank_item_def rerank_score_def spec_reranked_def spec_prior_composite_def
      spec_term_overlap_def spec_length_score_def spec_word_count_def spec_word_set_def
      dict_get_def Let_def not_less not_le split: option.splits)

text \<open>
  Claim C2. The reranker gives every candidate passed to it the score
  0.5 * prior composite + 0.3 * term overlap + 0.1 * length score + 0.1 * position score,
  with the prior composite the fused score if present, else the semantic score, else 0, the
  term overlap the share of the query's words found in the content (0 for a query without
  words), the length score 1 for 20 to 500 content words and 0.5 otherwise, and the position
  score 1: the output holds, for each input candidate, exactly that candidate with this
  reranked score.
\<close>

theorem rerank_score_formula:
  "mset (rerank_results query results)
     = mset (map (\<lambda>c. c\<lparr>reranked_score := Some (spec_reranked query c)\<rparr>) results)"
proof -
  have "rerank_item (set (str_split (lower query)))
          = (\<lambda>c. c\<lparr>reranked_score := Some (spec_reranked query c)\<rparr>)"
    by (rule ext) (rule rerank_item_spec)
  then show ?thesis
    by (simp add: rerank_results_def mset_sort_desc)
qed

subsection \<open>The result loops of the semantic and keyword retrievers\<close>

lemma foldl_semantic_format:
  "foldl semantic_format acc hs
     = acc @ map (\<lambda>(i, h). semantic_result i h) (enumerate (length acc + 1) hs)"
  by (induction hs arbitrary: acc) (simp_all add: semantic_format_def)

lemma foldl_bm25_format:
  "foldl (bm25_format qw) acc hs
     = acc @ map (\<lambda>(i, h). bm25_result qw i h) (enumerate (length acc + 1) hs)"
  by (induction hs arbitrary: acc) (simp_all add: bm25_format_def)

lemma enumerate_snd_in_set: "(i, h) \<in> set (enumerate n hs) \<Longrightarrow> h \<in> set hs"
  by (auto simp: enumerate_eq_zip dest: in_set_zipE)

lemma length_foldl_bm25_format: "length (foldl (bm25_format qw) [] hs) = length hs"
  by (simp add: foldl_bm25_format)

lemma in_foldl_bm25_format:
  "c \<in> set (foldl (bm25_format qw) [] hs) \<Longrightarrow> \<exists>i h. h \<in> set hs \<and> c = bm25_result qw i h"
  by (auto simp: foldl_bm25_format dest: enumerate_snd_in_set)

lemma in_foldl_semantic_format:
  "c \<in> set (foldl semantic_format [] hs) \<Longrightarrow> \<exists>i h. h \<in> set hs \<and> c = semantic_result i h"
  by (auto simp: foldl_semantic_format dest: enumerate_snd_in_set)

lemma str_split_empty: "str_split (lower []) = []"
  by (simp add: str_split_def lower_def)

lemma bm25_score_no_words: "bm25_score (bm25_result {} i h) = Some 0"
  by (simp add: bm25_result_def)

text \<open>
  Claim C3. The keyword strategy's output should be in descending order of its keyword
  score. \<open>BM25Retriever.retrieve\<close> computes the scores and numbers the results in the order
  of the index without sorting them: for the query \<open>dragon\<close> on the example index the scores
  come out as 0, 1.
\<close>

theorem keyword_output_not_sorted:
  "map_sum id (map bm25_score) (bm25_retrieve example_env ''dragon'' 5) = Inr [Some 0, Some 1]"
  by code_simp

subsection \<open>The dictionary \<open>result_scores\<close> of the hybrid retriever\<close>

lemma update_fresh: "k \<notin> fst ` set al \<Longrightarrow> AList.update k v al = al @ [(k, v)]"
  by (induction al) auto

lemma map_entry_distinct:
  "distinct (map fst al) \<Longrightarrow>
   AList.map_entry k f al = map (\<lambda>p. if fst p = k then (fst p, f (snd p)) else p) al"
proof (induction al)
  case Nil
  then show ?case by simp
next
  case (Cons p ps)
  show ?case
  proof (cases "fst p = k")
    case True
    with Cons.prems have "k \<notin> fst ` set ps" by auto
    then have "map (\<lambda>p. if fst p = k then (fst p, f (snd p)) else p) ps = ps"
      by (intro map_idI) auto
    with True show ?thesis by simp
  next
    case False
    with Cons show ?thesis by simp
  qed
qed

lemma map_if_fresh:
  "k \<notin> fst ` set al \<Longrightarrow> map (\<lambda>p. if fst p = k then g p else p) al = al"
  by (intro map_idI) auto

lemma add_semantic_eq:
  assumes "distinct (map fst al)"
  shows "add_semantic al r =
     (if cid r \<in> fst ` set al
      then map (\<lambda>p. if fst p = cid r
                     then (fst p, (snd p)\<lparr>entry_semantic_score := dict_get (similarity_score r) 0\<rparr>)
                     else p) al
      else al @ [(cid r, \<lparr>document = r, entry_semantic_score = dict_get (similarity_score r) 0,
                          entry_keyword_score = 0\<rparr>)])"
proof (cases "cid r \<in> fst ` set al")
  case True
  then obtain e where "map_of al (cid r) = Some e"
    by (cases "map_of al (cid r)") (auto simp: map_of_eq_None_iff)
  with True assms show ?thesis
    by (simp add: add_semantic_def Let_def map_entry_distinct)
next
  case False
  then have "map_of al (cid r) = None"
    by (simp add: map_of_eq_None_iff)
  moreover from False assms have "distinct (map fst (al @ [(cid r, v)]))" for v :: score_entry
    by auto
  ultimately show ?thesis
    using False by (simp add: add_semantic_def Let_def update_fresh map_entry_distinct map_if_fresh)
qed

lemma add_keyword_eq:
  assumes "distinct (map fst al)"
  shows "add_keyword al r =
     (if cid r \<in> fst ` set al
      then map (\<lambda>p. if fst p = cid r
                     then (fst p, (snd p)\<lparr>entry_keyword_score := dict_get (bm25_score r) 0\<rparr>)
                     else p) al
      else al @ [(cid r, \<lparr>document = r, entry_semantic_score = 0,
                          entry_keyword_score = dict_get (bm25_score r) 0\<rparr>)])"
proof (cases "cid r \<in> fst ` set al")
  case True
  then obtain e where "map_of al (cid r) = Some e"
    by (cases "map_of al (cid r)") (auto simp: map_of_eq_None_iff)
  with True assms show ?thesis
    by (simp add: add_keyword_def Let_def map_entry_distinct)
next
  case False
  then have "map_of al (cid r) = None"
    by (simp add: map_of_eq_None_iff)
  moreover from False assms have "distinct (map fst (al @ [(cid r, v)]))" for v :: score_entry
    by auto
  ultimately show ?thesis
    using False by (simp add: add_keyword_def Let_def update_fresh map_entry_distinct map_if_fresh)
qed

lemma score_of_Nil: "score_of f [] k = 0"
  by (simp add: score_of_def)

lemma score_of_snoc:
  "score_of f (rs @ [r]) k = (if cid r = k then dict_get (f r) 0 else score_of f rs k)"
  by (simp add: score_of_def)

lemma score_of_absent: "k \<notin> cid ` set rs \<Longrightarrow> score_of f rs k = 0"
  by (auto simp: score_of_def filter_empty_conv)


lemma semantic_phase:
  "distinct (map fst (foldl add_semantic [] rs))
   \<and> fst ` set (foldl add_semantic [] rs) = cid ` set rs
   \<and> (\<forall>p \<in> set (foldl add_semantic [] rs).
         cid (document (snd p)) = fst p \<and> document (snd p) \<in> set rs
         \<and> entry_semantic_score (snd p) = score_of similarity_score rs (fst p)
         \<and> entry_keyword_score (snd p) = 0)"
proof (induction rs rule: rev_induct)
  case Nil
  then show ?case by simp
next
  case (snoc r rs)
  let ?al = "foldl add_semantic [] rs"
  from snoc have d: "distinct (map fst ?al)" by blast
  show ?case
  proof (cases "cid r \<in> fst ` set ?al")
    case True
    have eq: "foldl add_semantic [] (rs @ [r]) =
        map (\<lambda>p. if fst p = cid r
                  then (fst p, (snd p)\<lparr>entry_semantic_score := dict_get (similarity_score r) 0\<rparr>)
                  else p) ?al"
      using True by (simp add: add_semantic_eq [OF d])
    have "map fst (foldl add_semantic [] (rs @ [r])) = map fst ?al"
      unfolding eq by (simp add: comp_def if_distrib cong: if_cong)
    moreover have "cid ` set (rs @ [r]) = cid ` set rs"
      using True snoc by auto
    moreover have "\<forall>p \<in> set (foldl add_semantic [] (rs @ [r])).
         cid (document (snd p)) = fst p \<and> document (snd p) \<in> set (rs @ [r])
         \<and> entry_semantic_score (snd p) = score_of similarity_score (rs @ [r]) (fst p)
         \<and> entry_keyword_score (snd p) = 0"
      unfolding eq using snoc by (auto simp: score_of_snoc)
    ultimately show ?thesis
      using snoc by (metis (no_types, lifting) set_map)
  next
    case False
    have eq: "foldl add_semantic [] (rs @ [r]) =
        ?al @ [(cid r, \<lparr>document = r, entry_semantic_score = dict_get (similarity_score r) 0,
                          entry_keyword_score = 0\<rparr>)]"
      using False by (simp add: add_semantic_eq [OF d])
    show ?thesis
      unfolding eq using snoc False by (auto simp: score_of_snoc)
  qed
qed


lemma keyword_phase:
  "distinct (map fst (foldl add_keyword (foldl add_semantic [] sem) kws))
   \<and> fst ` set (foldl add_keyword (foldl add_semantic [] sem) kws)
       = cid ` set sem \<union> cid ` set kws
   \<and> (\<forall>p \<in> set (foldl add_keyword (foldl add_semantic [] sem) kws).
         cid (document (snd p)) = fst p \<and> document (snd p) \<in> set sem \<union> set kws
         \<and> entry_semantic_score (snd p) = score_of similarity_score sem (fst p)
         \<and> entry_keyword_score (snd p) = score_of bm25_score kws (fst p))"
proof (induction kws rule: rev_induct)
  case Nil
  then show ?case
    using semantic_phase [of sem] by (simp add: score_of_Nil)
next
  case (snoc r kws)
  let ?al = "foldl add_keyword (foldl add_semantic [] sem) kws"
  from snoc have d: "distinct (map fst ?al)" by blast
  show ?case
  proof (cases "cid r \<in> fst ` set ?al")
    case True
    have eq: "foldl add_keyword (foldl add_semantic [] sem) (kws @ [r]) =
        map (\<lambda>p. if fst p = cid r
                  then (fst p, (snd p)\<lparr>entry_keyword_score := dict_get (bm25_score r) 0\<rparr>)
                  else p) ?al"
      using True by (simp add: add_keyword_eq [OF d])
    have "map fst (foldl add_keyword (foldl add_semantic [] sem) (kws @ [r])) = map fst ?al"
      unfolding eq by (simp add: comp_def if_distrib cong: if_cong)
    moreover have "cid ` set sem \<union> cid ` set (kws @ [r]) = cid ` set sem \<union> cid ` set kws"
      using True snoc by auto
    moreover have "\<forall>p \<in> set (foldl add_keyword (foldl add_semantic [] sem) (kws @ [r])).
         cid (document (snd p)) = fst p \<and> document (snd p) \<in> set sem \<union> set (kws @ [r])
         \<and> entry_semantic_score (snd p) = score_of similarity_score sem (fst p)
         \<and> entry_keyword_score (snd p) = score_of bm25_score (kws @ [r]) (fst p)"
      unfolding eq using snoc by (auto simp: score_of_snoc)
    ultimately show ?thesis
      using snoc by (metis (no_types, lifting) set_map)
  next
    case False
    have eq: "foldl add_keyword (foldl add_semantic [] sem) (kws @ [r]) =
        ?al @ [(cid r, \<lparr>document = r, entry_semantic_score = 0,
                          entry_keyword_score = dict_get (bm25_score r) 0\<rparr>)]"
      using False by (simp add: add_keyword_eq [OF d])
    from False snoc have "cid r \<notin> cid ` set sem" by blast
    then have "score_of similarity_score sem (cid r) = 0"
      by (rule score_of_absent)
    then show ?thesis
      unfolding eq using snoc False by (auto simp: score_of_snoc)
  qed
qed

lemma semantic_phase_keys:
  "distinct (map cid rs) \<Longrightarrow> map fst (foldl add_semantic [] rs) = map cid rs"
proof (induction rs rule: rev_induct)
  case Nil
  then show ?case by simp
next
  case (snoc r rs)
  let ?al = "foldl add_semantic [] rs"
  have d: "distinct (map fst ?al)" and k: "fst ` set ?al = cid ` set rs"
    using semantic_phase [of rs] by blast+
  from snoc.prems k have "cid r \<notin> fst ` set ?al" by auto
  with snoc show ?case
    by (simp add: add_semantic_eq [OF d])
qed

lemma keyword_phase_keys:
  "distinct (map fst al) \<Longrightarrow> cid ` set kws \<subseteq> fst ` set al \<Longrightarrow>
   map fst (foldl add_keyword al kws) = map fst al"
proof (induction kws arbitrary: al)
  case Nil
  then show ?case by simp
next
  case (Cons r kws)
  have m: "map fst (add_keyword al r) = map fst al"
    using Cons.prems by (simp add: add_keyword_eq comp_def if_distrib cong: if_cong)
  then have "distinct (map fst (add_keyword al r))"
    and "cid ` set kws \<subseteq> fst ` set (add_keyword al r)"
    using Cons.prems by (simp, metis (no_types, lifting) insert_subset list.set(2) image_insert set_map)
  then show ?case
    using Cons.IH m by simp
qed

subsection \<open>The fused list\<close>

lemma combine_fields:
  "cid (combine sw kw p) = cid (document (snd p))"
  "semantic_score (combine sw kw p) = Some (entry_semantic_score (snd p))"
  "keyword_score (combine sw kw p) = Some (entry_keyword_score (snd p))"
  "combined_score (combine sw kw p)
     = Some (sw * entry_semantic_score (snd p) + kw * entry_keyword_score (snd p))"
  "similarity_score (combine sw kw p) = similarity_score (document (snd p))"
  "bm25_score (combine sw kw p) = bm25_score (document (snd p))"
  "reranked_score (combine sw kw p) = reranked_score (document (snd p))"
  "rank (combine sw kw p) = rank (document (snd p))"
  by (simp_all add: combine_def Let_def)

lemma result_scores_keys:
  "map cid (map (combine sw kw) (result_scores_of sem kws)) = map fst (result_scores_of sem kws)"
  using keyword_phase [of sem kws]
  by (simp add: result_scores_of_def combine_fields)

lemma combined_results_ids:
  "cid ` set (combined_results sw kw sem kws) = cid ` set sem \<union> cid ` set kws"
proof -
  have "cid ` set (combined_results sw kw sem kws)
          = set (map cid (map (combine sw kw) (result_scores_of sem kws)))"
    by (simp only: combined_results_def set_sort_desc set_map)
  also have "\<dots> = fst ` set (result_scores_of sem kws)"
    by (simp only: result_scores_keys set_map)
  also have "\<dots> = cid ` set sem \<union> cid ` set kws"
    using keyword_phase [of sem kws] by (simp add: result_scores_of_def)
  finally show ?thesis .
qed

lemma combined_results_distinct: "distinct (map cid (combined_results sw kw sem kws))"
proof -
  have "mset (map cid (combined_results sw kw sem kws))
          = mset (map cid (map (combine sw kw) (result_scores_of sem kws)))"
    by (simp only: combined_results_def mset_sort_desc mset_map)
  moreover have "distinct (map cid (map (combine sw kw) (result_scores_of sem kws)))"
    using keyword_phase [of sem kws]
    by (simp only: result_scores_keys) (simp add: result_scores_of_def)
  ultimately show ?thesis
    by (metis mset_eq_imp_distinct_iff)
qed

lemma combined_results_scores:
  assumes "c \<in> set (combined_results sw kw sem kws)"
  shows "semantic_score c = Some (score_of similarity_score sem (cid c))
    \<and> keyword_score c = Some (score_of bm25_score kws (cid c))
    \<and> combined_score c
        = Some (sw * score_of similarity_score sem (cid c)
                + kw * score_of bm25_score kws (cid c))"
proof -
  from assms obtain p where p: "p \<in> set (result_scores_of sem kws)" and c: "c = combine sw kw p"
    by (auto simp: combined_results_def set_sort_desc)
  from p keyword_phase [of sem kws]
  have "cid (document (snd p)) = fst p"
    and "entry_semantic_score (snd p) = score_of similarity_score sem (fst p)"
    and "entry_keyword_score (snd p) = score_of bm25_score kws (fst p)"
    by (auto simp: result_scores_of_def)
  then show ?thesis
    by (simp add: c combine_fields)
qed

lemma combined_results_document:
  assumes "c \<in> set (combined_results sw kw sem kws)"
  shows "\<exists>d \<in> set sem \<union> set kws.
           similarity_score c = similarity_score d \<and> bm25_score c = bm25_score d
           \<and> reranked_score c = reranked_score d \<and> cid c = cid d"
proof -
  from assms obtain p where p: "p \<in> set (result_scores_of sem kws)" and c: "c = combine sw kw p"
    by (auto simp: combined_results_def set_sort_desc)
  from p keyword_phase [of sem kws] have "document (snd p) \<in> set sem \<union> set kws"
    by (auto simp: result_scores_of_def)
  then show ?thesis
    by (auto simp: c combine_fields)
qed

lemma hybrid_retrieve_eq:
  assumes "semantic_retrieve env query (top_k * 2) = Inr sem"
    and "bm25_retrieve env query (top_k * 2) = Inr kws"
  shows "hybrid_retrieve env sw kw query top_k
           = Inr (slice_upto top_k (combined_results sw kw sem kws))"
  using assms by (simp add: hybrid_retrieve_def)

lemma hybrid_retrieve_InrD:
  assumes "hybrid_retrieve env sw kw query top_k = Inr rs"
  obtains sem kws where "semantic_retrieve env query (top_k * 2) = Inr sem"
    and "bm25_retrieve env query (top_k * 2) = Inr kws"
    and "rs = slice_upto top_k (combined_results sw kw sem kws)"
  using assms by (auto simp: hybrid_retrieve_def split: sum.splits)

text \<open>
  Claim C1. For \<open>top_k \<ge> 1\<close> the hybrid strategy asks both sub-retrievals for
  \<open>2 * top_k\<close> results and returns the first \<open>top_k\<close> entries of the fused list. The
  identities of the fused list are exactly those of the two result lists, each once, and
  every fused candidate carries the semantic score and the keyword score of its identity
  (0 when the identity is missing from that list) and
  \<open>semantic_weight * semantic score + keyword_weight * keyword score\<close> as its fused score.
\<close>

theorem hybrid_union_fusion:
  assumes "1 \<le> top_k"
    and "semantic_retrieve env query (top_k * 2) = Inr sem"
    and "bm25_retrieve env query (top_k * 2) = Inr kws"
  shows "hybrid_retrieve env sw kw query top_k
           = Inr (take (nat top_k) (combined_results sw kw sem kws))
    \<and> length (take (nat top_k) (combined_results sw kw sem kws)) \<le> nat top_k
    \<and> cid ` set (combined_results sw kw sem kws) = cid ` set sem \<union> cid ` set kws
    \<and> distinct (map cid (combined_results sw kw sem kws))
    \<and> (\<forall>c \<in> set (combined_results sw kw sem kws).
          semantic_score c = Some (score_of similarity_score sem (cid c))
          \<and> keyword_score c = Some (score_of bm25_score kws (cid c))
          \<and> combined_score c
              = Some (sw * score_of similarity_score sem (cid c)
                      + kw * score_of bm25_score kws (cid c)))"
proof -
  from assms(1) have "slice_upto top_k (combined_results sw kw sem kws)
      = take (nat top_k) (combined_results sw kw sem kws)"
    by (simp add: slice_upto_nonneg)
  with assms(2,3) have "hybrid_retrieve env sw kw query top_k
           = Inr (take (nat top_k) (combined_results sw kw sem kws))"
    by (simp add: hybrid_retrieve_eq)
  then show ?thesis
    using combined_results_ids [of sw kw sem kws] combined_results_distinct [of sw kw sem kws]
      combined_results_scores [of _ sw kw sem kws]
    by simp
qed


theorem hybrid_union_fusion_witness:
  "\<exists>sem kws.
     semantic_retrieve example_env ''dragon'' (1 * 2) = Inr sem
     \<and> bm25_retrieve example_env ''dragon'' (1 * 2) = Inr kws
     \<and> hybrid_retrieve example_env (7 / 10) (3 / 10) ''dragon'' 1
         = Inr (take (nat 1) (combined_results (7 / 10) (3 / 10) sem kws))
     \<and> cid ` set (combined_results (7 / 10) (3 / 10) sem kws) = cid ` set sem \<union> cid ` set kws"
proof -
  have "\<not> isl (semantic_retrieve example_env ''dragon'' (1 * 2))"
    by code_simp
  then obtain sem where s: "semantic_retrieve example_env ''dragon'' (1 * 2) = Inr sem"
    by (cases "semantic_retrieve example_env ''dragon'' (1 * 2)") auto
  have "\<not> isl (bm25_retrieve example_env ''dragon'' (1 * 2))"
    by code_simp
  then obtain kws where k: "bm25_retrieve example_env ''dragon'' (1 * 2) = Inr kws"
    by (cases "bm25_retrieve example_env ''dragon'' (1 * 2)") auto
  have "(1::int) \<le> 1"
    by simp
  from hybrid_union_fusion [OF this s k, of "7 / 10" "3 / 10"] s k show ?thesis
    by blast
qed

text \<open>
  Claim C4. Every stage that sorts should set \<open>rank\<close> to the 1-based position in its sorted
  order. The hybrid strategy and the reranker sort copies of the results of the semantic or
  keyword retriever and leave the copied \<open>rank\<close> as it was: on the example index the hybrid
  operation and the reranking operation both return the ranks 2, 1 for fused scores
  13/20, 21/50 and reranked scores 31/40, 9/25.
\<close>

theorem hybrid_rank_stale:
  "map_sum id (map rank) (retrieve_hybrid example_env ''dragon'' None 5) = Inr [2, 1]
   \<and> map_sum id (map combined_score) (retrieve_hybrid example_env ''dragon'' None 5)
       = Inr [Some (13 / 20), Some (21 / 50)]
   \<and> map_sum id (map rank) (retrieve_with_reranking example_env ''dragon'' None 5) = Inr [2, 1]
   \<and> map_sum id (map reranked_score) (retrieve_with_reranking example_env ''dragon'' None 5)
       = Inr [Some (31 / 40), Some (9 / 25)]"
  by code_simp

subsection \<open>Scores within the unit interval\<close>

lemma unit_score_simps [simp]:
  "unit_score None" "unit_score (Some s) \<longleftrightarrow> 0 \<le> s \<and> s \<le> 1"
  by (simp_all add: unit_score_def)

lemma semantic_result_bounded:
  "0 \<le> distance h \<Longrightarrow> distance h \<le> 1 \<Longrightarrow> scores_bounded (semantic_result i h)"
  by (simp add: scores_bounded_def semantic_result_def)

lemma bm25_result_bounded:
  assumes "finite qw"
  shows "scores_bounded (bm25_result qw i h)"
proof -
  have "card (qw \<inter> set (str_split (lower (hit_content h)))) \<le> card qw"
    using assms by (intro card_mono) auto
  then show ?thesis
    by (simp add: scores_bounded_def bm25_result_def Let_def divide_le_eq_1)
qed

lemma score_of_bounded:
  assumes "\<forall>r \<in> set rs. unit_score (f r)"
  shows "0 \<le> score_of f rs k \<and> score_of f rs k \<le> 1"
proof (cases "filter (\<lambda>r. cid r = k) rs = []")
  case True
  then show ?thesis by (simp add: score_of_def)
next
  case False
  then have "last (filter (\<lambda>r. cid r = k) rs) \<in> set (filter (\<lambda>r. cid r = k) rs)"
    by (rule last_in_set)
  then have "last (filter (\<lambda>r. cid r = k) rs) \<in> set rs" by simp
  with assms have "unit_score (f (last (filter (\<lambda>r. cid r = k) rs)))" by blast
  with False show ?thesis
    by (cases "f (last (filter (\<lambda>r. cid r = k) rs))") (simp_all add: score_of_def dict_get_def)
qed

lemma convex_unit:
  fixes a b sw kw :: real
  assumes "0 \<le> sw" "0 \<le> kw" "sw + kw = 1" "0 \<le> a" "a \<le> 1" "0 \<le> b" "b \<le> 1"
  shows "0 \<le> sw * a + kw * b \<and> sw * a + kw * b \<le> 1"
proof -
  have "sw * a \<le> sw" "kw * b \<le> kw"
    using assms by (auto intro: mult_left_le)
  moreover have "0 \<le> sw * a" "0 \<le> kw * b"
    using assms by auto
  ultimately show ?thesis
    using assms(3) by linarith
qed

lemma combined_results_bounded:
  assumes w: "0 \<le> sw" "0 \<le> kw" "sw + kw = 1"
    and sem: "\<forall>c \<in> set sem. scores_bounded c"
    and kws: "\<forall>c \<in> set kws. scores_bounded c"
    and c: "c \<in> set (combined_results sw kw sem kws)"
  shows "scores_bounded c"
proof -
  have s: "0 \<le> score_of similarity_score sem (cid c) \<and> score_of similarity_score sem (cid c) \<le> 1"
    using sem by (intro score_of_bounded) (simp add: scores_bounded_def)
  have k: "0 \<le> score_of bm25_score kws (cid c) \<and> score_of bm25_score kws (cid c) \<le> 1"
    using kws by (intro score_of_bounded) (simp add: scores_bounded_def)
  from combined_results_document [OF c] obtain d where
    d: "d \<in> set sem \<union> set kws" "similarity_score c = similarity_score d"
       "bm25_score c = bm25_score d" "reranked_score c = reranked_score d"
    by blast
  from d(1) sem kws have "scores_bounded d" by blast
  with d s k combined_results_scores [OF c] convex_unit [OF w] show ?thesis
    by (simp add: scores_bounded_def)
qed

lemma rerank_score_bounded:
  assumes "finite qw" "scores_bounded c"
  shows "0 \<le> rerank_score qw c \<and> rerank_score qw c \<le> 1"
proof -
  let ?p = "dict_get (combined_score c) (dict_get (semantic_score c) 0)"
  let ?t = "if qw \<noteq> {}
            then real (card (qw \<inter> set (str_split (lower (content c))))) / real (card qw)
            else 0"
  have p: "0 \<le> ?p \<and> ?p \<le> 1"
    using assms(2)
    by (cases "combined_score c"; cases "semantic_score c")
      (simp_all add: scores_bounded_def dict_get_def)
  have "card (qw \<inter> set (str_split (lower (content c)))) \<le> card qw"
    using assms(1) by (intro card_mono) auto
  then have t: "0 \<le> ?t \<and> ?t \<le> 1"
    by (auto simp: divide_le_eq_1)
  show ?thesis
    using p t unfolding rerank_score_def Let_def
    by (auto split: if_splits)
qed

lemma rerank_results_bounded:
  assumes "\<forall>c \<in> set rs. scores_bounded c" and "c \<in> set (rerank_results query rs)"
  shows "scores_bounded c"
proof -
  from assms(2) obtain d where d: "d \<in> set rs"
    and c: "c = rerank_item (set (str_split (lower query))) d"
    by (auto simp: rerank_results_def set_sort_desc)
  from d assms(1) have b: "scores_bounded d" by blast
  with rerank_score_bounded [of "set (str_split (lower query))" d] show ?thesis
    by (simp add: c rerank_item_def scores_bounded_def)
qed

lemma filter_by_book_subset: "set (filter_by_book book_id rs) \<subseteq> set rs"
  by (auto simp: filter_by_book_def split: option.splits)

lemma semantic_retrieve_bounded:
  assumes idx: "\<forall>q n hits. search env q n = Inr hits \<longrightarrow>
                  (\<forall>h \<in> set hits. 0 \<le> distance h \<and> distance h \<le> 1)"
    and r: "semantic_retrieve env query top_k = Inr rs" and c: "c \<in> set rs"
  shows "scores_bounded c"
proof (cases "generate_embedding env query")
  case (Inl e)
  with r show ?thesis by (simp add: semantic_retrieve_def)
next
  case (Inr emb)
  show ?thesis
  proof (cases "emb = []")
    case True
    with Inr r c show ?thesis by (simp add: semantic_retrieve_def)
  next
    case False
    with Inr r obtain hits where h: "search env query top_k = Inr hits"
      and rs: "rs = foldl semantic_format [] (sort_key distance hits)"
      by (auto simp: semantic_retrieve_def split: sum.splits)
    from c rs have "\<exists>i h. h \<in> set (sort_key distance hits) \<and> c = semantic_result i h"
      using in_foldl_semantic_format [of c "sort_key distance hits"] by simp
    then obtain i h where "h \<in> set hits" and "c = semantic_result i h"
      by auto
    moreover have "\<forall>h \<in> set hits. 0 \<le> distance h \<and> distance h \<le> 1"
      using idx [rule_format, OF h] by blast
    ultimately show ?thesis
      by (simp add: semantic_result_bounded)
  qed
qed

lemma bm25_retrieve_bounded:
  assumes r: "bm25_retrieve env query top_k = Inr rs" and c: "c \<in> set rs"
  shows "scores_bounded c"
proof -
  from r obtain hits where
    rs: "rs = foldl (bm25_format (set (str_split (lower query)))) [] hits"
    by (auto simp: bm25_retrieve_def split: sum.splits)
  with c have "\<exists>i h. h \<in> set hits \<and> c = bm25_result (set (str_split (lower query))) i h"
    using in_foldl_bm25_format [of c "set (str_split (lower query))" hits] by simp
  then obtain i h where "c = bm25_result (set (str_split (lower query))) i h"
    by auto
  then show ?thesis
    by (simp add: bm25_result_bounded)
qed

lemma hybrid_retrieve_bounded:
  assumes idx: "\<forall>q n hits. search env q n = Inr hits \<longrightarrow>
                  (\<forall>h \<in> set hits. 0 \<le> distance h \<and> distance h \<le> 1)"
    and w: "0 \<le> sw" "0 \<le> kw" "sw + kw = 1"
    and r: "hybrid_retrieve env sw kw query top_k = Inr rs" and c: "c \<in> set rs"
  shows "scores_bounded c"
proof -
  from r obtain sem kws where sem: "semantic_retrieve env query (top_k * 2) = Inr sem"
    and kws: "bm25_retrieve env query (top_k * 2) = Inr kws"
    and rs: "rs = slice_upto top_k (combined_results sw kw sem kws)"
    by (rule hybrid_retrieve_InrD)
  have "\<forall>c \<in> set sem. scores_bounded c"
    using semantic_retrieve_bounded [OF idx sem] by blast
  moreover have "\<forall>c \<in> set kws. scores_bounded c"
    using bm25_retrieve_bounded [OF kws] by blast
  moreover from c rs have "c \<in> set (combined_results sw kw sem kws)"
    using set_slice_upto [of top_k "combined_results sw kw sem kws"] by blast
  ultimately show ?thesis
    by (rule combined_results_bounded [OF w])
qed

lemma default_weights: "0 \<le> default_semantic_weight" "0 \<le> default_keyword_weight"
  "default_semantic_weight + default_keyword_weight = 1"
  by (simp_all add: default_semantic_weight_def default_keyword_weight_def)

text \<open>
  Claim C5. When the index returns distances within [0, 1] and the fusion weights sum to 1,
  every score of every candidate that a strategy, the reranker or a service operation
  produces is within [0, 1]. The weights range over what the constructor of the hybrid
  retriever documents for them (\<open>0-1\<close>), so neither is negative; the service operations
  use the default weights 0.7 and 0.3.
\<close>

theorem scores_within_unit_interval:
  assumes idx: "\<forall>q n hits. search env q n = Inr hits \<longrightarrow>
                  (\<forall>h \<in> set hits. 0 \<le> distance h \<and> distance h \<le> 1)"
    and w: "0 \<le> sw" "0 \<le> kw" "sw + kw = 1"
  shows "(semantic_retrieve env query top_k = Inr rs \<longrightarrow> (\<forall>c \<in> set rs. scores_bounded c))
    \<and> (bm25_retrieve env query top_k = Inr rs \<longrightarrow> (\<forall>c \<in> set rs. scores_bounded c))
    \<and> (hybrid_retrieve env sw kw query top_k = Inr rs \<longrightarrow> (\<forall>c \<in> set rs. scores_bounded c))
    \<and> ((\<forall>c \<in> set rs. scores_bounded c) \<longrightarrow>
          (\<forall>c \<in> set (rerank_results query rs). scores_bounded c))
    \<and> (retrieve_by_semantic_similarity env query book_id top_k = Inr rs \<longrightarrow>
          (\<forall>c \<in> set rs. scores_bounded c))
    \<and> (retrieve_by_keyword_matching env query book_id top_k = Inr rs \<longrightarrow>
          (\<forall>c \<in> set rs. scores_bounded c))
    \<and> (retrieve_hybrid env query book_id top_k = Inr rs \<longrightarrow>
          (\<forall>c \<in> set rs. scores_bounded c))
    \<and> (retrieve_with_reranking env query book_id top_k = Inr rs \<longrightarrow>
          (\<forall>c \<in> set rs. scores_bounded c))"
proof (intro conjI impI ballI)
  fix c assume "semantic_retrieve env query top_k = Inr rs" and "c \<in> set rs"
  then show "scores_bounded c"
    by (rule semantic_retrieve_bounded [OF idx])
next
  fix c assume "bm25_retrieve env query top_k = Inr rs" and "c \<in> set rs"
  then show "scores_bounded c"
    by (rule bm25_retrieve_bounded)
next
  fix c assume "hybrid_retrieve env sw kw query top_k = Inr rs" and "c \<in> set rs"
  then show "scores_bounded c"
    by (rule hybrid_retrieve_bounded [OF idx w])
next
  fix c assume "\<forall>c \<in> set rs. scores_bounded c" and "c \<in> set (rerank_results query rs)"
  then show "scores_bounded c"
    by (rule rerank_results_bounded)
next
  fix c assume r: "retrieve_by_semantic_similarity env query book_id top_k = Inr rs"
    and c: "c \<in> set rs"
  from r obtain rs0 where r0: "semantic_retrieve env query top_k = Inr rs0"
    and rs: "rs = filter_by_book book_id rs0"
    by (auto simp: retrieve_by_semantic_similarity_def split: sum.splits)
  from c rs have "c \<in> set rs0"
    using filter_by_book_subset [of book_id rs0] by blast
  with r0 show "scores_bounded c"
    by (rule semantic_retrieve_bounded [OF idx])
next
  fix c assume r: "retrieve_by_keyword_matching env query book_id top_k = Inr rs"
    and c: "c \<in> set rs"
  from r obtain rs0 where r0: "bm25_retrieve env query top_k = Inr rs0"
    and rs: "rs = filter_by_book book_id rs0"
    by (auto simp: retrieve_by_keyword_matching_def split: sum.splits)
  from c rs have "c \<in> set rs0"
    using filter_by_book_subset [of book_id rs0] by blast
  with r0 show "scores_bounded c"
    by (rule bm25_retrieve_bounded)
next
  fix c assume r: "retrieve_hybrid env query book_id top_k = Inr rs"
    and c: "c \<in> set rs"
  from r obtain rs0 where
    r0: "hybrid_retrieve env default_semantic_weight default_keyword_weight query top_k = Inr rs0"
    and rs: "rs = filter_by_book book_id rs0"
    by (auto simp: retrieve_hybrid_def split: sum.splits)
  from c rs have "c \<in> set rs0"
    using filter_by_book_subset [of book_id rs0] by blast
  with r0 show "scores_bounded c"
    by (rule hybrid_retrieve_bounded [OF idx default_weights])
next
  fix c assume r: "retrieve_with_reranking env query book_id top_k = Inr rs"
    and c: "c \<in> set rs"
  from r obtain rs0 where
    r0: "hybrid_retrieve env default_semantic_weight default_keyword_weight query (top_k * 2)
          = Inr rs0"
    and rs: "rs = slice_upto top_k (rerank_results query (filter_by_book book_id rs0))"
    by (auto simp: retrieve_with_reranking_def split: sum.splits)
  have "\<forall>c \<in> set (filter_by_book book_id rs0). scores_bounded c"
  proof
    fix d assume "d \<in> set (filter_by_book book_id rs0)"
    then have "d \<in> set rs0"
      using filter_by_book_subset [of book_id rs0] by blast
    with r0 show "scores_bounded d"
      by (rule hybrid_retrieve_bounded [OF idx default_weights])
  qed
  moreover from c rs have "c \<in> set (rerank_results query (filter_by_book book_id rs0))"
    using set_slice_upto [of top_k "rerank_results query (filter_by_book book_id rs0)"] by blast
  ultimately show "scores_bounded c"
    by (rule rerank_results_bounded)
qed

lemma example_env_distances:
  "\<forall>q n hits. search example_env q n = Inr hits \<longrightarrow>
     (\<forall>h \<in> set hits. 0 \<le> distance h \<and> distance h \<le> 1)"
proof (intro allI impI ballI)
  fix q :: string and n :: int and hits h
  assume "search example_env q n = Inr hits" and "h \<in> set hits"
  then have "h \<in> set (take (nat n) [village, dragon])"
    by (auto simp: example_env_def)
  then have "h \<in> set [village, dragon]"
    by (rule in_set_takeD)
  then show "0 \<le> distance h \<and> distance h \<le> 1"
    by (auto simp: village_def dragon_def)
qed

theorem scores_within_unit_interval_witness:
  "\<exists>rs. retrieve_with_reranking example_env ''dragon'' None 5 = Inr rs
     \<and> rs \<noteq> [] \<and> list_all scores_bounded rs"
proof -
  let ?r = "retrieve_with_reranking example_env ''dragon'' None 5"
  have "\<not> isl ?r"
    by code_simp
  then obtain rs where r: "?r = Inr rs"
    by (cases ?r) auto
  have "projr ?r \<noteq> []"
    by code_simp
  with r have n: "rs \<noteq> []"
    by simp
  have w: "(0::real) \<le> 7 / 10" "(0::real) \<le> 3 / 10" "(7::real) / 10 + 3 / 10 = 1"
    by simp_all
  have "\<forall>c \<in> set rs. scores_bounded c"
    using scores_within_unit_interval [OF example_env_distances w,
        where query = "''dragon''" and top_k = 5 and rs = rs and book_id = None] r
    by simp
  with r n show ?thesis
    by (simp add: list_all_iff)
qed

subsection \<open>The empty query\<close>

lemma score_of_all_zero:
  assumes "\<forall>r \<in> set rs. f r = Some 0"
  shows "score_of f rs k = 0"
proof (cases "filter (\<lambda>r. cid r = k) rs = []")
  case True
  then show ?thesis by (simp add: score_of_def)
next
  case False
  then have "last (filter (\<lambda>r. cid r = k) rs) \<in> set (filter (\<lambda>r. cid r = k) rs)"
    by (rule last_in_set)
  then have "last (filter (\<lambda>r. cid r = k) rs) \<in> set rs" by simp
  with assms have "f (last (filter (\<lambda>r. cid r = k) rs)) = Some 0" by blast
  with False show ?thesis
    by (simp add: score_of_def dict_get_def)
qed

lemma bm25_retrieve_empty_query:
  assumes "search env [] top_k = Inr hits"
  shows "bm25_retrieve env [] top_k = Inr (foldl (bm25_format {}) [] hits)"
  using assms by (simp add: bm25_retrieve_def str_split_empty)

lemma bm25_empty_query_scores:
  assumes "c \<in> set (foldl (bm25_format {}) [] hits)"
  shows "bm25_score c = Some 0"
proof -
  from assms obtain i h where "c = bm25_result {} i h"
    using in_foldl_bm25_format [of c "{}" hits] by blast
  then show ?thesis
    by (simp add: bm25_score_no_words)
qed

lemma semantic_retrieve_returns:
  assumes "generate_embedding env query = Inr emb" and "search env query n = Inr hits"
  shows "\<exists>rs. semantic_retrieve env query n = Inr rs"
  using assms by (simp add: semantic_retrieve_def)

lemma bm25_retrieve_returns:
  assumes "search env query n = Inr hits"
  shows "\<exists>rs. bm25_retrieve env query n = Inr rs"
  using assms by (simp add: bm25_retrieve_def)

lemma hybrid_retrieve_returns:
  assumes "generate_embedding env query = Inr emb" and "search env query (n * 2) = Inr hits"
  shows "\<exists>rs. hybrid_retrieve env sw kw query n = Inr rs"
proof -
  from assms obtain sem where "semantic_retrieve env query (n * 2) = Inr sem"
    using semantic_retrieve_returns by blast
  moreover from assms obtain kws where "bm25_retrieve env query (n * 2) = Inr kws"
    using bm25_retrieve_returns by blast
  ultimately show ?thesis
    by (simp add: hybrid_retrieve_def)
qed

text \<open>
  Claim C6, amended. For the empty query no strategy raises an error of its own and no
  candidate gets a keyword signal, but the result need not be empty: the keyword strategy
  returns one candidate per hit of the index, each with keyword score 0 (so an empty
  sequence exactly when the index returns no hit); the semantic strategy returns the empty
  sequence when the embedding of the query is empty; every candidate of the hybrid
  strategy has keyword score 0.
\<close>

theorem empty_query_no_signal:
  "(search env [] top_k = Inr hits \<longrightarrow>
      (\<exists>rs. bm25_retrieve env [] top_k = Inr rs \<and> length rs = length hits
            \<and> (\<forall>c \<in> set rs. bm25_score c = Some 0)))
   \<and> (generate_embedding env [] = Inr [] \<longrightarrow> semantic_retrieve env [] top_k = Inr [])
   \<and> (hybrid_retrieve env sw kw [] top_k = Inr fused \<longrightarrow>
        (\<forall>c \<in> set fused. keyword_score c = Some 0))
   \<and> (generate_embedding env [] = Inr emb \<and> search env [] top_k = Inr hits \<longrightarrow>
        (\<exists>rs. semantic_retrieve env [] top_k = Inr rs))
   \<and> (generate_embedding env [] = Inr emb \<and> search env [] (top_k * 2) = Inr hits2 \<longrightarrow>
        (\<exists>rs. hybrid_retrieve env sw kw [] top_k = Inr rs))"
proof (intro conjI impI)
  assume h: "search env [] top_k = Inr hits"
  have "bm25_retrieve env [] top_k = Inr (foldl (bm25_format {}) [] hits)"
    using h by (rule bm25_retrieve_empty_query)
  moreover have "length (foldl (bm25_format {}) [] hits) = length hits"
    by (rule length_foldl_bm25_format)
  moreover have "\<forall>c \<in> set (foldl (bm25_format {}) [] hits). bm25_score c = Some 0"
    using bm25_empty_query_scores by blast
  ultimately show "\<exists>rs. bm25_retrieve env [] top_k = Inr rs \<and> length rs = length hits
            \<and> (\<forall>c \<in> set rs. bm25_score c = Some 0)"
    by blast
next
  assume "generate_embedding env [] = Inr []"
  then show "semantic_retrieve env [] top_k = Inr []"
    by (simp add: semantic_retrieve_def)
next
  assume r: "hybrid_retrieve env sw kw [] top_k = Inr fused"
  show "\<forall>c \<in> set fused. keyword_score c = Some 0"
  proof
    fix c assume c: "c \<in> set fused"
    from r obtain sem kws where
      kws: "bm25_retrieve env [] (top_k * 2) = Inr kws"
      and fused: "fused = slice_upto top_k (combined_results sw kw sem kws)"
      by (rule hybrid_retrieve_InrD)
    from kws obtain hits where "kws = foldl (bm25_format {}) [] hits"
      by (auto simp: bm25_retrieve_def str_split_empty split: sum.splits)
    then have "\<forall>r \<in> set kws. bm25_score r = Some 0"
      using bm25_empty_query_scores by blast
    then have z: "score_of bm25_score kws (cid c) = 0"
      by (rule score_of_all_zero)
    from c fused have "c \<in> set (combined_results sw kw sem kws)"
      using set_slice_upto [of top_k "combined_results sw kw sem kws"] by blast
    then have "keyword_score c = Some (score_of bm25_score kws (cid c))"
      using combined_results_scores [of c sw kw sem kws] by blast
    with z show "keyword_score c = Some 0"
      by simp
  qed
next
  assume "generate_embedding env [] = Inr emb \<and> search env [] top_k = Inr hits"
  then show "\<exists>rs. semantic_retrieve env [] top_k = Inr rs"
    using semantic_retrieve_returns [of env "[]" emb top_k hits] by blast
next
  assume "generate_embedding env [] = Inr emb \<and> search env [] (top_k * 2) = Inr hits2"
  then show "\<exists>rs. hybrid_retrieve env sw kw [] top_k = Inr rs"
    using hybrid_retrieve_returns [of env "[]" emb top_k hits2 sw kw] by blast
qed

theorem empty_query_no_signal_witness:
  "\<exists>rs. search example_env [] 5 = Inr [village, dragon]
     \<and> bm25_retrieve example_env [] 5 = Inr rs \<and> length rs = 2
     \<and> list_all (\<lambda>c. bm25_score c = Some 0) rs"
proof -
  have h: "search example_env [] 5 = Inr [village, dragon]"
    by (simp add: example_env_def)
  have "\<exists>rs. bm25_retrieve example_env [] 5 = Inr rs \<and> length rs = length [village, dragon]
            \<and> (\<forall>c \<in> set rs. bm25_score c = Some 0)"
    by (rule empty_query_no_signal [where env = example_env and top_k = 5
          and hits = "[village, dragon]", THEN conjunct1, THEN mp, OF h])
  then obtain rs where "bm25_retrieve example_env [] 5 = Inr rs" and "length rs = 2"
    and "\<forall>c \<in> set rs. bm25_score c = Some 0"
    by auto
  with h show ?thesis
    by (auto simp: list_all_iff)
qed

theorem empty_query_counterexample:
  "map_sum id (map cid) (bm25_retrieve example_env [] 5) = Inr [''1'', ''2'']"
  by code_simp

subsection \<open>The service boundary\<close>

text \<open>
  Claim C7, amended. No operation of the service checks \<open>top_k\<close>: a call with
  \<open>top_k < 1\<close> is not rejected. It hands \<open>top_k\<close> (or a multiple of it) to the index like
  any other call and returns normally whenever the embedding generator and the index do.
\<close>

theorem top_k_not_validated:
  assumes "top_k < 1"
    and emb: "generate_embedding env query = Inr emb"
    and idx: "\<forall>n. \<exists>hits. search env query n = Inr hits"
  shows "(\<exists>rs. retrieve_by_semantic_similarity env query book_id top_k = Inr rs)
    \<and> (\<exists>rs. retrieve_by_keyword_matching env query book_id top_k = Inr rs)
    \<and> (\<exists>rs. retrieve_hybrid env query book_id top_k = Inr rs)
    \<and> (\<exists>rs. retrieve_with_reranking env query book_id top_k = Inr rs)"
proof (intro conjI)
  from idx obtain hits where h: "search env query top_k = Inr hits"
    by blast
  from semantic_retrieve_returns [OF emb h]
  show "\<exists>rs. retrieve_by_semantic_similarity env query book_id top_k = Inr rs"
    by (auto simp: retrieve_by_semantic_similarity_def)
  from bm25_retrieve_returns [OF h]
  show "\<exists>rs. retrieve_by_keyword_matching env query book_id top_k = Inr rs"
    by (auto simp: retrieve_by_keyword_matching_def)
  from idx obtain hits2 where "search env query (top_k * 2) = Inr hits2"
    by blast
  from hybrid_retrieve_returns [OF emb this, of default_semantic_weight default_keyword_weight]
  show "\<exists>rs. retrieve_hybrid env query book_id top_k = Inr rs"
    by (auto simp: retrieve_hybrid_def)
  from idx obtain hits4 where "search env query (top_k * 2 * 2) = Inr hits4"
    by blast
  from hybrid_retrieve_returns [OF emb this, of default_semantic_weight default_keyword_weight]
  show "\<exists>rs. retrieve_with_reranking env query book_id top_k = Inr rs"
    by (auto simp: retrieve_with_reranking_def)
qed

theorem top_k_not_validated_witness:
  "(0::int) < 1
   \<and> (\<exists>rs. retrieve_by_semantic_similarity example_env ''dragon'' None 0 = Inr rs)
   \<and> (\<exists>rs. retrieve_by_keyword_matching example_env ''dragon'' None 0 = Inr rs)
   \<and> (\<exists>rs. retrieve_hybrid example_env ''dragon'' None 0 = Inr rs)
   \<and> (\<exists>rs. retrieve_with_reranking example_env ''dragon'' None 0 = Inr rs)"
proof -
  have 1: "(0::int) < 1"
    by simp
  have 2: "generate_embedding example_env ''dragon'' = Inr [1]"
    by (simp add: example_env_def)
  have 3: "\<forall>n. \<exists>hits. search example_env ''dragon'' n = Inr hits"
    by (simp add: example_env_def)
  from top_k_not_validated [OF 1 2 3, of None] 1 show ?thesis
    by simp
qed

theorem top_k_counterexample:
  "retrieve_by_semantic_similarity example_env ''dragon'' None 0 = Inr []
   \<and> retrieve_by_keyword_matching example_env ''dragon'' None 0 = Inr []
   \<and> retrieve_hybrid example_env ''dragon'' None 0 = Inr []
   \<and> retrieve_with_reranking example_env ''dragon'' None 0 = Inr []"
  by code_simp

subsection \<open>The book filter\<close>

lemma filter_by_book_None: "filter_by_book None results = results"
  by (simp add: filter_by_book_def)

lemma subseq_filter_by_book: "subseq (filter_by_book book_id results) results"
  by (simp add: filter_by_book_def split: option.splits)

lemma length_filter_by_book: "length (filter_by_book book_id results) \<le> length results"
  by (simp add: filter_by_book_def split: option.splits)

lemma length_slice_upto_mono:
  "length xs \<le> length ys \<Longrightarrow> length (slice_upto k xs) \<le> length (slice_upto k ys)"
  by (auto simp: slice_upto_def)

lemma length_rerank_results: "length (rerank_results query results) = length results"
  by (simp add: rerank_results_def length_sort_desc)

lemma metadata_rerank_results:
  assumes "c \<in> set (rerank_results query results)"
  shows "\<exists>d \<in> set results. metadata c = metadata d"
  using assms by (auto simp: rerank_results_def set_sort_desc rerank_item_def)

text \<open>
  Claim C8, amended. For a book identifier that is not the empty string, the filter of the
  service keeps exactly the results whose metadata maps \<open>book_id\<close> to that identifier, in
  their order and unchanged. A scoped call of the semantic, keyword or hybrid operation
  returns the filtered result of the unscoped call, so it may return fewer than \<open>top_k\<close>
  results, pads nothing and fails only where the unscoped call fails; the reranking
  operation, which filters before it reranks, returns only results of that book and no more
  of them than the unscoped call returns. (An empty identifier is treated like an absent
  one: nothing is filtered.)
\<close>

theorem book_filter_frame:
  assumes b: "book_id \<noteq> []"
  shows "filter_by_book (Some book_id) results
           = filter (\<lambda>c. map_of (metadata c) ''book_id'' = Some book_id) results
    \<and> subseq (filter_by_book (Some book_id) results) results
    \<and> length (filter_by_book (Some book_id) results) \<le> length results
    \<and> (retrieve_by_semantic_similarity env query None top_k = Inr results \<longrightarrow>
          retrieve_by_semantic_similarity env query (Some book_id) top_k
            = Inr (filter_by_book (Some book_id) results))
    \<and> (retrieve_by_keyword_matching env query None top_k = Inr results \<longrightarrow>
          retrieve_by_keyword_matching env query (Some book_id) top_k
            = Inr (filter_by_book (Some book_id) results))
    \<and> (retrieve_hybrid env query None top_k = Inr results \<longrightarrow>
          retrieve_hybrid env query (Some book_id) top_k
            = Inr (filter_by_book (Some book_id) results))
    \<and> (retrieve_with_reranking env query None top_k = Inr results \<longrightarrow>
          (\<exists>scoped. retrieve_with_reranking env query (Some book_id) top_k = Inr scoped
             \<and> length scoped \<le> length results
             \<and> (\<forall>c \<in> set scoped. map_of (metadata c) ''book_id'' = Some book_id)))
    \<and> filter_by_book (Some []) results = results
    \<and> filter_by_book None results = results"
proof (intro conjI impI)
  show "filter_by_book (Some book_id) results
           = filter (\<lambda>c. map_of (metadata c) ''book_id'' = Some book_id) results"
    using b by (simp add: filter_by_book_def book_matches_def [abs_def])
  show "subseq (filter_by_book (Some book_id) results) results"
    by (rule subseq_filter_by_book)
  show "length (filter_by_book (Some book_id) results) \<le> length results"
    by (rule length_filter_by_book)
next
  assume "retrieve_by_semantic_similarity env query None top_k = Inr results"
  then show "retrieve_by_semantic_similarity env query (Some book_id) top_k
            = Inr (filter_by_book (Some book_id) results)"
    by (auto simp: retrieve_by_semantic_similarity_def filter_by_book_None split: sum.splits)
next
  assume "retrieve_by_keyword_matching env query None top_k = Inr results"
  then show "retrieve_by_keyword_matching env query (Some book_id) top_k
            = Inr (filter_by_book (Some book_id) results)"
    by (auto simp: retrieve_by_keyword_matching_def filter_by_book_None split: sum.splits)
next
  assume "retrieve_hybrid env query None top_k = Inr results"
  then show "retrieve_hybrid env query (Some book_id) top_k
            = Inr (filter_by_book (Some book_id) results)"
    by (auto simp: retrieve_hybrid_def filter_by_book_None split: sum.splits)
next
  assume r: "retrieve_with_reranking env query None top_k = Inr results"
  then obtain initial where
    h: "hybrid_retrieve env default_semantic_weight default_keyword_weight query (top_k * 2)
          = Inr initial"
    and rs: "results = slice_upto top_k (rerank_results query initial)"
    by (auto simp: retrieve_with_reranking_def filter_by_book_None split: sum.splits)
  let ?scoped = "slice_upto top_k (rerank_results query (filter_by_book (Some book_id) initial))"
  have 1: "retrieve_with_reranking env query (Some book_id) top_k = Inr ?scoped"
    using h by (simp add: retrieve_with_reranking_def)
  have "length (rerank_results query (filter_by_book (Some book_id) initial))
          \<le> length (rerank_results query initial)"
    by (simp add: length_rerank_results length_filter_by_book)
  then have 2: "length ?scoped \<le> length results"
    unfolding rs by (rule length_slice_upto_mono)
  have 3: "\<forall>c \<in> set ?scoped. map_of (metadata c) ''book_id'' = Some book_id"
  proof
    fix c assume "c \<in> set ?scoped"
    then have "c \<in> set (rerank_results query (filter_by_book (Some book_id) initial))"
      using set_slice_upto [of top_k "rerank_results query (filter_by_book (Some book_id) initial)"]
      by blast
    then obtain d where "d \<in> set (filter_by_book (Some book_id) initial)"
      and "metadata c = metadata d"
      using metadata_rerank_results by blast
    with b show "map_of (metadata c) ''book_id'' = Some book_id"
      by (simp add: filter_by_book_def book_matches_def)
  qed
  from 1 2 3 show "\<exists>scoped. retrieve_with_reranking env query (Some book_id) top_k = Inr scoped
             \<and> length scoped \<le> length results
             \<and> (\<forall>c \<in> set scoped. map_of (metadata c) ''book_id'' = Some book_id)"
    by blast
next
  show "filter_by_book (Some []) results = results"
    by (simp add: filter_by_book_def)
next
  show "filter_by_book None results = results"
    by (rule filter_by_book_None)
qed

theorem book_filter_frame_witness:
  "''B'' \<noteq> []
   \<and> (\<exists>results. retrieve_by_keyword_matching example_env ''dragon'' None 5 = Inr results
         \<and> length results = 2
         \<and> retrieve_by_keyword_matching example_env ''dragon'' (Some ''B'') 5
             = Inr (filter_by_book (Some ''B'') results)
         \<and> map cid (filter_by_book (Some ''B'') results) = [''2''])"
proof -
  let ?u = "retrieve_by_keyword_matching example_env ''dragon'' None 5"
  let ?s = "retrieve_by_keyword_matching example_env ''dragon'' (Some ''B'') 5"
  have b: "''B'' \<noteq> []"
    by simp
  have "\<not> isl ?u"
    by code_simp
  then obtain results where u: "?u = Inr results"
    by (cases ?u) auto
  have "length (projr ?u) = 2"
    by code_simp
  with u have l: "length results = 2"
    by simp
  have s: "?s = Inr (filter_by_book (Some ''B'') results)"
    by (rule book_filter_frame [OF b, where results = results and env = example_env
          and query = "''dragon''" and top_k = 5,
          THEN conjunct2, THEN conjunct2, THEN conjunct2, THEN conjunct2, THEN conjunct1,
          THEN mp, OF u])
  have "map cid (projr ?s) = [''2'']"
    by code_simp
  with s have "map cid (filter_by_book (Some ''B'') results) = [''2'']"
    by simp
  with b u l s show ?thesis
    by (intro conjI exI [of _ results]) simp_all
qed

theorem empty_book_id_counterexample:
  "map_sum id (map metadata) (retrieve_by_keyword_matching example_env ''dragon'' (Some []) 5)
     = Inr [[(''book_id'', ''A'')], [(''book_id'', ''B'')]]"
  by code_simp

subsection \<open>The reranker on values and on a store\<close>

lemma prior_fields_rerank_item: "prior_fields (rerank_item qw c) = prior_fields c"
  by (simp add: prior_fields_def rerank_item_def)

lemma map_insort_key:
  "map g (insort_key (\<lambda>x. f (g x)) x xs) = insort_key f (g x) (map g xs)"
  by (induction xs) simp_all

lemma map_sort_key: "map g (sort_key (\<lambda>x. f (g x)) xs) = sort_key f (map g xs)"
  by (induction xs) (simp_all add: map_insort_key)

lemma map_sort_desc: "map g (sort_desc (\<lambda>x. f (g x)) xs) = sort_desc f (map g xs)"
  using map_sort_key [of g "\<lambda>y. - f y" xs] by (simp add: sort_desc_def)

lemma rerank_step_eq:
  "rerank_step qw (acc, s) r = (acc @ [length s], s @ [rerank_item qw (s ! r)])"
  by (simp add: rerank_step_def rerank_item_def Let_def)

lemma foldl_rerank_step:
  "\<forall>r \<in> set rs. r < length s \<Longrightarrow>
   foldl (rerank_step qw) (acc, s) rs
     = (acc @ [length s ..< length s + length rs], s @ map (\<lambda>r. rerank_item qw (s ! r)) rs)"
proof (induction rs arbitrary: acc s)
  case Nil
  then show ?case by simp
next
  case (Cons r rs)
  let ?s = "s @ [rerank_item qw (s ! r)]"
  from Cons.prems have v: "\<forall>x \<in> set rs. x < length ?s"
    by auto
  from Cons.prems have m: "map (\<lambda>x. rerank_item qw (?s ! x)) rs = map (\<lambda>x. rerank_item qw (s ! x)) rs"
    by (intro map_cong) (auto simp: nth_append)
  have u: "[length s ..< length s + length (r # rs)]
             = length s # [length ?s ..< length ?s + length rs]"
    by (simp add: upt_rec)
  show ?case
    using Cons.IH [OF v, of "acc @ [length s]"] m u
    by (simp add: rerank_step_eq)
qed

lemma map_nth_append_upt: "map ((!) (xs @ ys)) [length xs ..< length xs + length ys] = ys"
  by (rule nth_equalityI) (simp_all add: nth_append)

lemma rerank_results_store_eq:
  assumes "\<forall>r \<in> set refs. r < length s"
  shows "rerank_results_store query refs s
     = (sort_desc (\<lambda>x. dict_get (reranked_score
                          ((s @ map (\<lambda>r. rerank_item (set (str_split (lower query))) (s ! r)) refs) ! x)) 0)
          [length s ..< length s + length refs],
        s @ map (\<lambda>r. rerank_item (set (str_split (lower query))) (s ! r)) refs)"
  using foldl_rerank_step [OF assms, of "set (str_split (lower query))" "[]"]
  by (simp add: rerank_results_store_def Let_def)

lemma rerank_results_store_frame:
  assumes "\<forall>r \<in> set refs. r < length s"
  shows "take (length s) (snd (rerank_results_store query refs s)) = s"
    and "map ((!) (snd (rerank_results_store query refs s))) (fst (rerank_results_store query refs s))
           = rerank_results query (map ((!) s) refs)"
    and "set (fst (rerank_results_store query refs s))
           = {length s ..< length s + length refs}"
proof -
  let ?qw = "set (str_split (lower query))"
  let ?new = "map (\<lambda>r. rerank_item ?qw (s ! r)) refs"
  note eq = rerank_results_store_eq [OF assms, of query]
  show "take (length s) (snd (rerank_results_store query refs s)) = s"
    by (simp add: eq)
  have "map ((!) (s @ ?new))
          (sort_desc (\<lambda>x. dict_get (reranked_score ((s @ ?new) ! x)) 0)
             [length s ..< length s + length refs])
        = sort_desc (\<lambda>c. dict_get (reranked_score c) 0)
            (map ((!) (s @ ?new)) [length s ..< length s + length refs])"
    by (rule map_sort_desc)
  also have "map ((!) (s @ ?new)) [length s ..< length s + length refs] = ?new"
    using map_nth_append_upt [of s ?new] by simp
  finally show "map ((!) (snd (rerank_results_store query refs s)))
           (fst (rerank_results_store query refs s))
           = rerank_results query (map ((!) s) refs)"
    by (simp add: eq rerank_results_def comp_def)
  show "set (fst (rerank_results_store query refs s)) = {length s ..< length s + length refs}"
    by (simp add: eq set_sort_desc)
qed


text \<open>
  Claim C10. The reranker returns a permutation of its input in which every candidate is
  the input candidate with the reranked score set: one output per input, and every other
  key (identity, content, metadata, rank and the similarity, keyword, fused, semantic
  scores) as it was. On a store of dictionaries the function writes only into the copies
  it allocates: the dictionaries that existed before the call are unchanged after it, the
  results are the new dictionaries, and they hold what the function on values computes.
\<close>

theorem rerank_copies_inputs:
  "length (rerank_results query results) = length results
   \<and> mset (rerank_results query results)
       = mset (map (\<lambda>c. c\<lparr>reranked_score :=
                            Some (rerank_score (set (str_split (lower query))) c)\<rparr>) results)
   \<and> mset (map prior_fields (rerank_results query results)) = mset (map prior_fields results)
   \<and> ((\<forall>r \<in> set refs. r < length s) \<longrightarrow>
        take (length s) (snd (rerank_results_store query refs s)) = s
        \<and> map ((!) (snd (rerank_results_store query refs s)))
              (fst (rerank_results_store query refs s))
            = rerank_results query (map ((!) s) refs)
        \<and> set (fst (rerank_results_store query refs s))
            = {length s ..< length s + length refs})"
proof (intro conjI impI)
  let ?qw = "set (str_split (lower query))"
  have item: "rerank_item ?qw = (\<lambda>c. c\<lparr>reranked_score := Some (rerank_score ?qw c)\<rparr>)"
    by (rule ext) (simp add: rerank_item_def)
  show "length (rerank_results query results) = length results"
    by (rule length_rerank_results)
  show "mset (rerank_results query results)
       = mset (map (\<lambda>c. c\<lparr>reranked_score := Some (rerank_score ?qw c)\<rparr>) results)"
    by (simp add: rerank_results_def mset_sort_desc item)
  have "mset (map prior_fields (rerank_results query results))
          = mset (map prior_fields (map (rerank_item ?qw) results))"
    by (simp only: rerank_results_def mset_map mset_sort_desc)
  also have "map prior_fields (map (rerank_item ?qw) results) = map prior_fields results"
    by (simp add: prior_fields_rerank_item)
  finally show "mset (map prior_fields (rerank_results query results))
                  = mset (map prior_fields results)" .
next
  assume v: "\<forall>r \<in> set refs. r < length s"
  show "take (length s) (snd (rerank_results_store query refs s)) = s"
    using v by (rule rerank_results_store_frame)
  show "map ((!) (snd (rerank_results_store query refs s)))
              (fst (rerank_results_store query refs s))
            = rerank_results query (map ((!) s) refs)"
    using v by (rule rerank_results_store_frame)
  show "set (fst (rerank_results_store query refs s)) = {length s ..< length s + length refs}"
    using v by (rule rerank_results_store_frame)
qed

theorem rerank_copies_inputs_witness:
  "list_all (\<lambda>r. r < length example_store) [0, 1]
   \<and> take (length example_store) (snd (rerank_results_store ''dragon'' [0, 1] example_store))
       = example_store
   \<and> set (fst (rerank_results_store ''dragon'' [0, 1] example_store)) = {2 ..< 4}"
proof -
  have v: "\<forall>r \<in> set [0, 1]. r < length example_store"
    by (simp add: example_store_def)
  have l: "length example_store = 2"
    by (simp add: example_store_def)
  from rerank_copies_inputs [where refs = "[0, 1]" and s = example_store and query = "''dragon''",
      THEN conjunct2, THEN conjunct2, THEN conjunct2, THEN mp, OF v] v l
  show ?thesis
    by (simp add: list_all_iff)
qed

subsection \<open>The limits of the fusion weights\<close>

lemma map_slice_upto: "map f (slice_upto k xs) = slice_upto k (map f xs)"
  by (simp add: slice_upto_def take_map)

lemma sort_desc_sorted: "sorted_wrt (\<lambda>a b. b \<le> a) (map key (sort_desc key xs))"
proof -
  have "sorted (map (\<lambda>x. - key x) (sort_key (\<lambda>x. - key x) xs))"
    by (rule sorted_sort_key)
  then show ?thesis
    by (simp add: sort_desc_def sorted_wrt_map)
qed

lemma sorted_wrt_slice_upto: "sorted_wrt R xs \<Longrightarrow> sorted_wrt R (slice_upto k xs)"
  by (simp add: slice_upto_def sorted_wrt_take)

lemma filter_distinct_key:
  "distinct (map cid rs) \<Longrightarrow> c \<in> set rs \<Longrightarrow> filter (\<lambda>r. cid r = cid c) rs = [c]"
proof (induction rs)
  case Nil
  then show ?case by simp
next
  case (Cons x xs)
  show ?case
  proof (cases "x = c")
    case True
    with Cons.prems have "cid c \<notin> cid ` set xs" by simp
    then have "\<forall>r \<in> set xs. cid r \<noteq> cid c"
      by (metis imageI)
    then have "filter (\<lambda>r. cid r = cid c) xs = []"
      by (simp add: filter_empty_conv)
    with True show ?thesis by simp
  next
    case False
    with Cons.prems have "c \<in> set xs" and "cid x \<noteq> cid c"
      by auto
    with Cons show ?thesis by simp
  qed
qed

lemma score_of_distinct:
  "distinct (map cid rs) \<Longrightarrow> c \<in> set rs \<Longrightarrow> score_of f rs (cid c) = dict_get (f c) 0"
  by (simp add: score_of_def filter_distinct_key)

lemma semantic_format_ids:
  "map cid (foldl semantic_format acc hs) = map cid acc @ map hit_id hs"
  by (induction hs arbitrary: acc) (simp_all add: semantic_format_def semantic_result_def)

lemma semantic_format_similarity:
  "map similarity_score (foldl semantic_format acc hs)
     = map similarity_score acc @ map (\<lambda>h. Some (1 - distance h)) hs"
  by (induction hs arbitrary: acc) (simp_all add: semantic_format_def semantic_result_def)

lemma bm25_format_ids:
  "map cid (foldl (bm25_format qw) acc hs) = map cid acc @ map hit_id hs"
  by (induction hs arbitrary: acc) (simp_all add: bm25_format_def bm25_result_def Let_def)


lemma combined_results_semantic_only:
  assumes sem: "sem = foldl semantic_format [] (sort_key distance hits)"
    and kws: "kws = foldl (bm25_format qw) [] hits"
    and d: "distinct (map hit_id hits)"
  shows "map cid (combined_results 1 0 sem kws) = map cid sem
    \<and> map combined_score (combined_results 1 0 sem kws) = map similarity_score sem"
proof -
  let ?hs = "sort_key distance hits"
  let ?R = "result_scores_of sem kws"
  let ?F = "map (combine 1 0) ?R"
  have ids_sem: "map cid sem = map hit_id ?hs"
    by (simp add: sem semantic_format_ids)
  have sims: "map similarity_score sem = map (\<lambda>h. Some (1 - distance h)) ?hs"
    by (simp add: sem semantic_format_similarity)
  have "mset (map hit_id ?hs) = mset (map hit_id hits)"
    by simp
  with d have "distinct (map hit_id ?hs)"
    by (metis mset_eq_imp_distinct_iff)
  with ids_sem have dist: "distinct (map cid sem)"
    by simp
  have ids_kws: "map cid kws = map hit_id hits"
    by (simp add: kws bm25_format_ids)
  have "set (map cid kws) = set (map cid sem)"
    by (simp only: ids_kws ids_sem) simp
  then have sub: "cid ` set kws \<subseteq> cid ` set sem"
    by simp
  have k1: "map fst (foldl add_semantic [] sem) = map cid sem"
    using dist by (rule semantic_phase_keys)
  have "distinct (map fst (foldl add_semantic [] sem))"
    by (simp only: k1 dist)
  moreover have "cid ` set kws \<subseteq> fst ` set (foldl add_semantic [] sem)"
    using sub semantic_phase [of sem] by simp
  ultimately have "map fst (foldl add_keyword (foldl add_semantic [] sem) kws)
      = map fst (foldl add_semantic [] sem)"
    by (rule keyword_phase_keys)
  with k1 have keys: "map fst ?R = map cid sem"
    by (simp add: result_scores_of_def)
  have F_ids: "map cid ?F = map cid sem"
    by (simp only: result_scores_keys keys)
  have "map combined_score ?F = map (\<lambda>p. Some (score_of similarity_score sem (fst p))) ?R"
  proof (simp only: map_map, rule map_cong [OF refl])
    fix p assume "p \<in> set ?R"
    with keyword_phase [of sem kws]
    have "entry_semantic_score (snd p) = score_of similarity_score sem (fst p)"
      by (simp add: result_scores_of_def)
    then show "(combined_score \<circ> combine 1 0) p = Some (score_of similarity_score sem (fst p))"
      by (simp add: combine_fields)
  qed
  also have "\<dots> = map (\<lambda>k. Some (score_of similarity_score sem k)) (map fst ?R)"
    by simp
  also have "\<dots> = map (\<lambda>c. Some (score_of similarity_score sem (cid c))) sem"
    by (simp only: keys map_map comp_def)
  also have "\<dots> = map similarity_score sem"
  proof (rule map_cong [OF refl])
    fix c assume c: "c \<in> set sem"
    then obtain i h where "c = semantic_result i h"
      unfolding sem using in_foldl_semantic_format [of c ?hs] by blast
    then have "similarity_score c = Some (dict_get (similarity_score c) 0)"
      by (simp add: semantic_result_def dict_get_def)
    with c dist show "Some (score_of similarity_score sem (cid c)) = similarity_score c"
      by (simp add: score_of_distinct)
  qed
  finally have F_scores: "map combined_score ?F = map similarity_score sem" .
  have "map (\<lambda>x. - dict_get (combined_score x) 0) ?F
          = map (\<lambda>v. - dict_get v 0) (map combined_score ?F)"
    by (simp only: map_map comp_def)
  also have "\<dots> = map (\<lambda>h. distance h - 1) ?hs"
    by (simp only: F_scores sims) (simp add: dict_get_def)
  finally have "sorted (map (\<lambda>x. - dict_get (combined_score x) 0) ?F)
      \<longleftrightarrow> sorted (map (\<lambda>h. distance h - 1) ?hs)"
    by simp
  moreover have "sorted (map distance ?hs)"
    by (rule sorted_sort_key)
  then have "sorted (map (\<lambda>h. distance h - 1) ?hs)"
    by (simp add: sorted_wrt_map)
  ultimately have "sorted (map (\<lambda>x. - dict_get (combined_score x) 0) ?F)"
    by simp
  then have "combined_results 1 0 sem kws = ?F"
    unfolding combined_results_def sort_desc_def by (rule sort_key_id_if_sorted)
  with F_ids F_scores show ?thesis
    by simp
qed


lemma combined_results_keyword_only:
  "(\<forall>c \<in> set (combined_results 0 1 sem kws). combined_score c = keyword_score c)
   \<and> sorted_wrt (\<lambda>a b. b \<le> a)
        (map (\<lambda>c. dict_get (keyword_score c) 0) (combined_results 0 1 sem kws))"
proof -
  have eq: "\<forall>c \<in> set (combined_results 0 1 sem kws). combined_score c = keyword_score c"
  proof
    fix c assume "c \<in> set (combined_results 0 1 sem kws)"
    from combined_results_scores [OF this] show "combined_score c = keyword_score c"
      by simp
  qed
  then have "map (\<lambda>c. dict_get (keyword_score c) 0) (combined_results 0 1 sem kws)
      = map (\<lambda>c. dict_get (combined_score c) 0) (combined_results 0 1 sem kws)"
    by (intro map_cong) simp_all
  also have "\<dots> = map (\<lambda>c. dict_get (combined_score c) 0)
      (sort_desc (\<lambda>c. dict_get (combined_score c) 0)
         (map (combine 0 1) (result_scores_of sem kws)))"
    by (simp only: combined_results_def)
  finally have "sorted_wrt (\<lambda>a b. b \<le> a)
        (map (\<lambda>c. dict_get (keyword_score c) 0) (combined_results 0 1 sem kws))"
    by (simp only: sort_desc_sorted)
  with eq show ?thesis
    by (rule conjI)
qed

lemma hybrid_semantic_limit:
  assumes emb: "generate_embedding env query = Inr emb" and ne: "emb \<noteq> []"
    and idx: "search env query (top_k * 2) = Inr hits"
    and d: "distinct (map hit_id hits)"
  shows "\<exists>sem fused.
            semantic_retrieve env query (top_k * 2) = Inr sem
            \<and> hybrid_retrieve env 1 0 query top_k = Inr fused
            \<and> map cid fused = slice_upto top_k (map cid sem)
            \<and> map combined_score fused = slice_upto top_k (map similarity_score sem)"
proof -
  let ?sem = "foldl semantic_format [] (sort_key distance hits)"
  let ?kws = "foldl (bm25_format (set (str_split (lower query)))) [] hits"
  have s: "semantic_retrieve env query (top_k * 2) = Inr ?sem"
    using emb ne idx by (simp add: semantic_retrieve_def)
  have k: "bm25_retrieve env query (top_k * 2) = Inr ?kws"
    using idx by (simp add: bm25_retrieve_def)
  note h = hybrid_retrieve_eq [OF s k]
  from combined_results_semantic_only [OF refl refl d, of "set (str_split (lower query))"]
  have "map cid (slice_upto top_k (combined_results 1 0 ?sem ?kws))
          = slice_upto top_k (map cid ?sem)"
    and "map combined_score (slice_upto top_k (combined_results 1 0 ?sem ?kws))
          = slice_upto top_k (map similarity_score ?sem)"
    by (simp_all only: map_slice_upto)
  with s h [of 1 0] show ?thesis
    by blast
qed

lemma hybrid_keyword_limit:
  assumes r: "hybrid_retrieve env 0 1 query top_k = Inr fused"
  shows "(\<forall>c \<in> set fused. combined_score c = keyword_score c)
    \<and> sorted_wrt (\<lambda>a b. b \<le> a) (map (\<lambda>c. dict_get (keyword_score c) 0) fused)"
proof -
  from r obtain sem kws where
    fused: "fused = slice_upto top_k (combined_results 0 1 sem kws)"
    by (rule hybrid_retrieve_InrD)
  have "\<forall>c \<in> set fused. combined_score c = keyword_score c"
    unfolding fused
    using combined_results_keyword_only [of sem kws]
      set_slice_upto [of top_k "combined_results 0 1 sem kws"]
    by blast
  moreover have "sorted_wrt (\<lambda>a b. b \<le> a) (map (\<lambda>c. dict_get (keyword_score c) 0) fused)"
    unfolding fused
    using combined_results_keyword_only [of sem kws]
    by (simp only: map_slice_upto sorted_wrt_slice_upto)
  ultimately show ?thesis
    by (rule conjI)
qed

text \<open>
  Claim C9, amended. With semantic weight 1 and keyword weight 0, when the query has a
  non-empty embedding and the hits of the index have pairwise distinct identities, the
  hybrid strategy returns the candidates in the order of the semantic strategy over the
  same pool of \<open>2 * top_k\<close> hits, cut to \<open>top_k\<close>, each with its similarity as fused
  score. With semantic weight 0 and keyword weight 1 every fused score is the keyword
  score and the hybrid output is in descending order of it, whatever the embedding and the
  hits are; under the conditions of the first half such an output exists.
\<close>

theorem hybrid_weight_limits:
  "(generate_embedding env query = Inr emb \<and> emb \<noteq> []
      \<and> search env query (top_k * 2) = Inr hits \<and> distinct (map hit_id hits) \<longrightarrow>
        (\<exists>sem fused.
            semantic_retrieve env query (top_k * 2) = Inr sem
            \<and> hybrid_retrieve env 1 0 query top_k = Inr fused
            \<and> map cid fused = slice_upto top_k (map cid sem)
            \<and> map combined_score fused = slice_upto top_k (map similarity_score sem))
        \<and> (\<exists>fused.
              hybrid_retrieve env 0 1 query top_k = Inr fused
              \<and> (\<forall>c \<in> set fused. combined_score c = keyword_score c)
              \<and> sorted_wrt (\<lambda>a b. b \<le> a) (map (\<lambda>c. dict_get (keyword_score c) 0) fused)))
   \<and> (hybrid_retrieve env 0 1 query top_k = Inr fused' \<longrightarrow>
         (\<forall>c \<in> set fused'. combined_score c = keyword_score c)
         \<and> sorted_wrt (\<lambda>a b. b \<le> a) (map (\<lambda>c. dict_get (keyword_score c) 0) fused'))"
proof (intro conjI impI)
  assume h: "generate_embedding env query = Inr emb \<and> emb \<noteq> []
      \<and> search env query (top_k * 2) = Inr hits \<and> distinct (map hit_id hits)"
  then have emb: "generate_embedding env query = Inr emb" and ne: "emb \<noteq> []"
    and idx: "search env query (top_k * 2) = Inr hits" and d: "distinct (map hit_id hits)"
    by simp_all
  show "\<exists>sem fused.
            semantic_retrieve env query (top_k * 2) = Inr sem
            \<and> hybrid_retrieve env 1 0 query top_k = Inr fused
            \<and> map cid fused = slice_upto top_k (map cid sem)
            \<and> map combined_score fused = slice_upto top_k (map similarity_score sem)"
    using emb ne idx d by (rule hybrid_semantic_limit)
  from hybrid_retrieve_returns [OF emb idx, of 0 1]
  obtain fused where r: "hybrid_retrieve env 0 1 query top_k = Inr fused"
    by blast
  from r hybrid_keyword_limit [OF r]
  show "\<exists>fused.
          hybrid_retrieve env 0 1 query top_k = Inr fused
          \<and> (\<forall>c \<in> set fused. combined_score c = keyword_score c)
          \<and> sorted_wrt (\<lambda>a b. b \<le> a) (map (\<lambda>c. dict_get (keyword_score c) 0) fused)"
    by blast
next
  assume r: "hybrid_retrieve env 0 1 query top_k = Inr fused'"
  from hybrid_keyword_limit [OF r]
  show "\<forall>c \<in> set fused'. combined_score c = keyword_score c"
    by (rule conjunct1)
  from hybrid_keyword_limit [OF r]
  show "sorted_wrt (\<lambda>a b. b \<le> a) (map (\<lambda>c. dict_get (keyword_score c) 0) fused')"
    by (rule conjunct2)
qed

theorem hybrid_weight_limits_witness:
  "distinct (map hit_id [village, dragon])
   \<and> (\<exists>sem fused.
         semantic_retrieve example_env ''dragon'' (1 * 2) = Inr sem
         \<and> hybrid_retrieve example_env 1 0 ''dragon'' 1 = Inr fused
         \<and> map cid fused = slice_upto 1 (map cid sem)
         \<and> map combined_score fused = slice_upto 1 (map similarity_score sem))"
proof -
  have 1: "generate_embedding example_env ''dragon'' = Inr [1]"
    by (simp add: example_env_def)
  have 2: "[1::real] \<noteq> []"
    by simp
  have 3: "search example_env ''dragon'' (1 * 2) = Inr [village, dragon]"
    by (simp add: example_env_def)
  have 4: "distinct (map hit_id [village, dragon])"
    by (simp add: village_def dragon_def)
  from 1 2 3 4
  have h: "generate_embedding example_env ''dragon'' = Inr [1] \<and> [1::real] \<noteq> []
      \<and> search example_env ''dragon'' (1 * 2) = Inr [village, dragon]
      \<and> distinct (map hit_id [village, dragon])"
    by (intro conjI)
  have "\<exists>sem fused.
         semantic_retrieve example_env ''dragon'' (1 * 2) = Inr sem
         \<and> hybrid_retrieve example_env 1 0 ''dragon'' 1 = Inr fused
         \<and> map cid fused = slice_upto 1 (map cid sem)
         \<and> map combined_score fused = slice_upto 1 (map similarity_score sem)"
    by (rule hybrid_weight_limits [where env = example_env and query = "''dragon''"
          and top_k = 1 and emb = "[1]" and hits = "[village, dragon]",
          THEN conjunct1, THEN mp, OF h, THEN conjunct1])
  with 4 show ?thesis
    by (rule conjI)
qed

theorem weight_limit_counterexample:
  "map_sum id (map cid) (hybrid_retrieve example_env 0 1 ''dragon'' 5) = Inr [''2'', ''1'']
   \<and> map_sum id (map cid) (bm25_retrieve example_env ''dragon'' 10) = Inr [''1'', ''2'']
   \<and> map_sum id (map cid) (hybrid_retrieve no_embedding_env 1 0 ''dragon'' 5)
       = Inr [''1'', ''2'']
   \<and> semantic_retrieve no_embedding_env ''dragon'' 10 = Inr []
   \<and> map_sum id (map cid) (hybrid_retrieve duplicate_env 1 0 ''dragon'' 5)
       = Inr [''2'', ''1'']
   \<and> map_sum id (map cid) (semantic_retrieve duplicate_env ''dragon'' 10)
       = Inr [''1'', ''2'', ''1'']"
proof (intro conjI)
  show "map_sum id (map cid) (hybrid_retrieve example_env 0 1 ''dragon'' 5) = Inr [''2'', ''1'']"
    by code_simp
  show "map_sum id (map cid) (bm25_retrieve example_env ''dragon'' 10) = Inr [''1'', ''2'']"
    by code_simp
  show "map_sum id (map cid) (hybrid_retrieve no_embedding_env 1 0 ''dragon'' 5)
       = Inr [''1'', ''2'']"
    by code_simp
  show "semantic_retrieve no_embedding_env ''dragon'' 10 = Inr []"
    by (simp add: semantic_retrieve_def no_embedding_env_def)
  show "map_sum id (map cid) (hybrid_retrieve duplicate_env 1 0 ''dragon'' 5)
       = Inr [''2'', ''1'']"
    by code_simp
  show "map_sum id (map cid) (semantic_retrieve duplicate_env ''dragon'' 10)
       = Inr [''1'', ''2'', ''1'']"
    by code_simp
qed

end
